theory Spec2Isabelle
  imports Complex_Main
begin

section \<open>Strings\<close>

text \<open>
  The strings of \<^verbatim>\<open>app.js\<close> are modelled as HOL strings: a character is one of the
  256 code units U+0000 to U+00FF. The white space of \<^verbatim>\<open>trim\<close> and of the
  regular-expression class \<^verbatim>\<open>\s\<close> is tab, line feed, vertical tab, form feed, carriage
  return, space and no-break space.
\<close>

abbreviation bsl :: char where
  "bsl \<equiv> CHR 0x5C"

definition isSpace :: "char \<Rightarrow> bool" where
  "isSpace c = (c \<in> set [CHR 0x09, CHR 0x0A, CHR 0x0B, CHR 0x0C, CHR 0x0D, CHR 0x20, CHR 0xA0])"

definition trim :: "string \<Rightarrow> string" where
  "trim s = rev (dropWhile isSpace (rev (dropWhile isSpace s)))"

text \<open>
  \<^verbatim>\<open>toUpperCase\<close> of a string of one character. The small letters \<open>a\<close> to \<open>z\<close> and
  U+00E0 to U+00FE (without the division sign U+00F7) go to their capitals, 32 code
  units below; the sharp s U+00DF goes to the two letters \<open>SS\<close>. The capitals of the
  micro sign U+00B5 and of U+00FF are U+039C and U+0178, which are not among the 256
  characters: these two are left as they are here, and what is proved below for every
  path is proved for the paths that do not start with one of them (\<open>modelled\<close>).
\<close>

definition upperChar :: "char \<Rightarrow> string" where
  "upperChar c =
     (let n = (of_char c :: nat) in
      if n = 223 then ''SS''
      else if (97 \<le> n \<and> n \<le> 122) \<or> (224 \<le> n \<and> n \<le> 254 \<and> n \<noteq> 247)
      then [case c of Char b0 b1 b2 b3 b4 b5 b6 b7 \<Rightarrow> Char b0 b1 b2 b3 b4 False b6 b7]
      else [c])"

text \<open>
  \<^verbatim>\<open>toLowerCase\<close> of one character: the capitals \<open>A\<close> to \<open>Z\<close> and U+00C0 to U+00DE
  (without the multiplication sign U+00D7) go to their small letters, 32 code units
  above.
\<close>

definition toLowerChar :: "char \<Rightarrow> char" where
  "toLowerChar c =
     (let n = (of_char c :: nat) in
      if (65 \<le> n \<and> n \<le> 90) \<or> (192 \<le> n \<and> n \<le> 222 \<and> n \<noteq> 215)
      then (case c of Char b0 b1 b2 b3 b4 b5 b6 b7 \<Rightarrow> Char b0 b1 b2 b3 b4 True b6 b7)
      else c)"

definition toUpperCase :: "string \<Rightarrow> string" where
  "toUpperCase s = concat (map upperChar s)"

definition toLowerCase :: "string \<Rightarrow> string" where
  "toLowerCase s = map toLowerChar s"

definition startsWith :: "string \<Rightarrow> string \<Rightarrow> bool" where
  "startsWith s t = (take (length t) s = t)"

definition endsWith :: "string \<Rightarrow> string \<Rightarrow> bool" where
  "endsWith s t = (length t \<le> length s \<and> drop (length s - length t) s = t)"

section \<open>Plain objects\<close>

text \<open>
  \<^verbatim>\<open>state.variables\<close> and \<^verbatim>\<open>vfs\<close> are plain objects (\<^verbatim>\<open>{}\<close>, or the result of
  \<^verbatim>\<open>JSON.parse\<close>). A key that is not an own property of such an object is looked up in
  \<^verbatim>\<open>Object.prototype\<close>, whose members are listed here with the text that
  \<^verbatim>\<open>String\<close> gives for each: a built-in function prints as
  \<^verbatim>\<open>function name() { [native code] }\<close>, and \<^verbatim>\<open>__proto__\<close> reads as
  \<^verbatim>\<open>Object.prototype\<close> itself, which prints as \<^verbatim>\<open>[object Object]\<close>.
\<close>

definition nativeCode :: "string \<Rightarrow> string" where
  "nativeCode name = ''function '' @ name @ ''() { [native code] }''"

definition objectPrototypeMembers :: "(string \<times> string) list" where
  "objectPrototypeMembers =
       [(''constructor'', nativeCode ''Object''),
        (''__defineGetter__'', nativeCode ''__defineGetter__''),
        (''__defineSetter__'', nativeCode ''__defineSetter__''),
        (''hasOwnProperty'', nativeCode ''hasOwnProperty''),
        (''__lookupGetter__'', nativeCode ''__lookupGetter__''),
        (''__lookupSetter__'', nativeCode ''__lookupSetter__''),
        (''isPrototypeOf'', nativeCode ''isPrototypeOf''),
        (''propertyIsEnumerable'', nativeCode ''propertyIsEnumerable''),
        (''toString'', nativeCode ''toString''),
        (''valueOf'', nativeCode ''valueOf''),
        (''__proto__'', ''[object Object]''),
        (''toLocaleString'', nativeCode ''toLocaleString'')]"

definition objectPrototype :: "string \<rightharpoonup> string" where
  "objectPrototype = map_of objectPrototypeMembers"

section \<open>Shell state\<close>

text \<open>
  The fields of the global \<^verbatim>\<open>state\<close> object that the interpreter core reads and
  writes. \<^verbatim>\<open>variables\<close> holds the own properties of \<^verbatim>\<open>state.variables\<close>, the
  variables that were assigned.
\<close>

record state =
  cwd :: string
  variables :: "string \<rightharpoonup> string"
  history :: "string list"
  historyIndex :: int

text \<open>
  The lookup \<^verbatim>\<open>state.variables[n]\<close>, as the text that the replacement callbacks of
  \<^verbatim>\<open>expandVariables\<close> insert: an own property, else the member of
  \<^verbatim>\<open>Object.prototype\<close> of that name, else undefined (\<open>None\<close>).
\<close>

definition getVariable :: "state \<Rightarrow> string \<rightharpoonup> string" where
  "getVariable st n = (case variables st n of Some v \<Rightarrow> Some v | None \<Rightarrow> objectPrototype n)"

section \<open>Path normalisation\<close>

text \<open>\<^verbatim>\<open>p.replace(/\//g, '\\')\<close>: every forward slash becomes a backslash.\<close>

definition slashes :: "string \<Rightarrow> string" where
  "slashes p = map (\<lambda>c. if c = CHR ''/'' then bsl else c) p"

text \<open>\<^verbatim>\<open>p.replace(/\\+/g, '\\')\<close>: every run of backslashes becomes one backslash.\<close>

fun collapse :: "string \<Rightarrow> string" where
  "collapse (a # b # s) =
     (if a = bsl \<and> b = bsl then collapse (b # s) else a # collapse (b # s))"
| "collapse s = s"

definition normPath :: "string \<Rightarrow> string" where
  "normPath p =
     (if p = [] then []
      else
        let p1 = collapse (slashes p);
            p2 = (if endsWith p1 [bsl] \<and> length p1 > 3 then butlast p1 else p1)
        in if length p2 \<ge> 2 \<and> p2 ! 1 = CHR '':''
           then toUpperCase [p2 ! 0] @ drop 1 p2
           else p2)"

section \<open>Path resolution\<close>

text \<open>\<^verbatim>\<open>s.split(sep)\<close> for a separator class: the pieces between the separators.\<close>

fun splitBy :: "(char \<Rightarrow> bool) \<Rightarrow> string \<Rightarrow> string list" where
  "splitBy P [] = [[]]"
| "splitBy P (c # s) =
     (if P c then [] # splitBy P s
      else (case splitBy P s of [] \<Rightarrow> [[c]] | x # xs \<Rightarrow> (c # x) # xs))"

text \<open>\<^verbatim>\<open>s.lastIndexOf(c)\<close>: the index of the last occurrence, \<open>-1\<close> when there is none.\<close>

fun lastIndexOf :: "string \<Rightarrow> char \<Rightarrow> int" where
  "lastIndexOf [] c = -1"
| "lastIndexOf (x # xs) c =
     (let r = lastIndexOf xs c in if r \<ge> 0 then r + 1 else if x = c then 0 else -1)"

definition isQuote :: "char \<Rightarrow> bool" where
  "isQuote c = (c = CHR 0x22 \<or> c = CHR 0x27)"

text \<open>
  \<^verbatim>\<open>s.replace(/^["']|["']$/g, '')\<close>: a quote character at the start is removed, and a
  quote character at the end of what is left is removed.
\<close>

definition stripQuotes :: "string \<Rightarrow> string" where
  "stripQuotes s =
     (let s1 = (if s \<noteq> [] \<and> isQuote (hd s) then tl s else s)
      in if s1 \<noteq> [] \<and> isQuote (last s1) then butlast s1 else s1)"

definition isAlpha :: "char \<Rightarrow> bool" where
  "isAlpha c = (let n = (of_char c :: nat) in (65 \<le> n \<and> n \<le> 90) \<or> (97 \<le> n \<and> n \<le> 122))"

definition isDigit :: "char \<Rightarrow> bool" where
  "isDigit c = (let n = (of_char c :: nat) in 48 \<le> n \<and> n \<le> 57)"

text \<open>\<^verbatim>\<open>/^[A-Za-z]:/.test(p)\<close>\<close>

definition isAbsolute :: "string \<Rightarrow> bool" where
  "isAbsolute p = (case p of a # b # _ \<Rightarrow> isAlpha a \<and> b = CHR '':'' | _ \<Rightarrow> False)"

text \<open>The loop of \<^verbatim>\<open>resolvePath\<close> over the parts of a relative path.\<close>

fun walk :: "string \<Rightarrow> string list \<Rightarrow> string" where
  "walk base [] = base"
| "walk base (part # parts) =
     (if part = [] \<or> part = ''.'' then walk base parts
      else if part = ''..'' then
        (let idx = lastIndexOf base bsl
         in walk (if idx > 2 then take (nat idx) base else base) parts)
      else walk (base @ [bsl] @ part) parts)"

definition resolvePath :: "state \<Rightarrow> string \<Rightarrow> string" where
  "resolvePath st p =
     (if p = [] \<or> p = ''.'' then normPath (cwd st)
      else
        let p1 = stripQuotes (trim p)
        in if isAbsolute p1 then normPath p1
           else normPath (walk (cwd st) (splitBy (\<lambda>c. c = CHR ''/'' \<or> c = bsl) p1)))"

section \<open>Virtual filesystem\<close>

text \<open>
  A node of the store is an object
  \<^verbatim>\<open>{ type:'dir'|'file', content?:string, created:date, modified:date }\<close>. Each field
  is optional here, because \<^verbatim>\<open>fsCopy\<close> can build a node that has the field
  \<^verbatim>\<open>modified\<close> alone; a field that is absent reads as undefined.
\<close>

datatype ntype = DirT | FileT

type_synonym timestamp = string

record node =
  ntype :: "ntype option"
  content :: "string option"
  created :: "timestamp option"
  modified :: "timestamp option"

definition emptyNode :: node where
  "emptyNode = \<lparr>ntype = None, content = None, created = None, modified = None\<rparr>"

text \<open>
  The store \<^verbatim>\<open>vfs\<close> is a plain object. \<open>entries\<close> holds its own properties, one node
  for each path. \<open>proto\<close> records an assignment \<^verbatim>\<open>vfs['__proto__'] = node\<close>, which
  stores no own property: it makes the node the prototype of the store, in front of
  \<^verbatim>\<open>Object.prototype\<close>. The entries of a store are nodes (a store read back by
  \<^verbatim>\<open>JSON.parse\<close> could hold any value).
\<close>

record vfs =
  entries :: "string \<rightharpoonup> node"
  proto :: "node option"

definition emptyFS :: vfs where
  "emptyFS = \<lparr>entries = Map.empty, proto = None\<rparr>"

text \<open>The names of the fields that a node has.\<close>

definition nodeKeys :: "node \<Rightarrow> string list" where
  "nodeKeys n =
     (if ntype n \<noteq> None then [''type''] else []) @
     (if content n \<noteq> None then [''content''] else []) @
     (if created n \<noteq> None then [''created''] else []) @
     (if modified n \<noteq> None then [''modified''] else [])"

text \<open>
  What \<^verbatim>\<open>vfs[k]\<close> reads: a node, a value that is not a node (\<open>Foreign\<close>: a member of
  \<^verbatim>\<open>Object.prototype\<close>, or the value of a field of the prototype node), or undefined
  (\<open>None\<close>). A value that is not a node has none of the four fields. The key
  \<^verbatim>\<open>__proto__\<close> reads as the prototype of the store.
\<close>

datatype entry = Node node | Foreign

definition lookup :: "vfs \<Rightarrow> string \<Rightarrow> entry option" where
  "lookup fs k =
     (case entries fs k of
        Some n \<Rightarrow> Some (Node n)
      | None \<Rightarrow>
          (case proto fs of
             Some n \<Rightarrow>
               if k = ''__proto__'' then Some (Node n)
               else if k \<in> set (nodeKeys n) \<or> objectPrototype k \<noteq> None then Some Foreign
               else None
           | None \<Rightarrow> if objectPrototype k \<noteq> None then Some Foreign else None))"

text \<open>
  The assignment \<^verbatim>\<open>vfs[k] = n\<close>: an own property, except that the key
  \<^verbatim>\<open>__proto__\<close>, when it is not an own property already, sets the prototype.
\<close>

definition assign :: "vfs \<Rightarrow> string \<Rightarrow> node \<Rightarrow> vfs" where
  "assign fs k n =
     (if k = ''__proto__'' \<and> entries fs k = None then fs\<lparr>proto := Some n\<rparr>
      else fs\<lparr>entries := (entries fs)(k \<mapsto> n)\<rparr>)"

text \<open>
  The clock \<^verbatim>\<open>new Date().toISOString()\<close> is a parameter \<open>now\<close> of every operation
  that reads it; \<^verbatim>\<open>saveFS\<close> writes to local storage and is outside the model.
  Every operation returns the store it leaves behind, next to its result.
\<close>

text \<open>\<^verbatim>\<open>normPath(p) in vfs\<close>\<close>

definition fsExists :: "vfs \<Rightarrow> string \<Rightarrow> bool" where
  "fsExists fs p = (lookup fs (normPath p) \<noteq> None)"

text \<open>\<^verbatim>\<open>vfs[normPath(p)]?.type === 'dir'\<close>\<close>

definition fsIsDir :: "vfs \<Rightarrow> string \<Rightarrow> bool" where
  "fsIsDir fs p =
     (case lookup fs (normPath p) of Some (Node n) \<Rightarrow> ntype n = Some DirT | _ \<Rightarrow> False)"

text \<open>\<^verbatim>\<open>vfs[normPath(p)]?.type === 'file'\<close>\<close>

definition fsIsFile :: "vfs \<Rightarrow> string \<Rightarrow> bool" where
  "fsIsFile fs p =
     (case lookup fs (normPath p) of Some (Node n) \<Rightarrow> ntype n = Some FileT | _ \<Rightarrow> False)"

text \<open>\<^verbatim>\<open>vfs[normPath(p)]?.content ?? ''\<close>\<close>

definition fsGetContent :: "vfs \<Rightarrow> string \<Rightarrow> string" where
  "fsGetContent fs p =
     (case lookup fs (normPath p) of
        Some (Node n) \<Rightarrow> (case content n of None \<Rightarrow> [] | Some c \<Rightarrow> c)
      | _ \<Rightarrow> [])"

definition fsMkdir :: "timestamp \<Rightarrow> vfs \<Rightarrow> string \<Rightarrow> bool \<times> vfs" where
  "fsMkdir now fs p0 =
     (let p = normPath p0
      in if fsExists fs p then (False, fs)
         else (True, assign fs p
                 \<lparr>ntype = Some DirT, content = None, created = Some now, modified = Some now\<rparr>))"

text \<open>
  \<^verbatim>\<open>fsWriteFile\<close> can throw: in the append branch
  \<^verbatim>\<open>vfs[p].content += content; vfs[p].modified = now\<close> reads the value at \<open>p\<close>, while
  the test \<^verbatim>\<open>fsIsFile(p)\<close> before it has read the value at \<open>normPath p\<close>. When
  \<^verbatim>\<open>vfs[p]\<close> is undefined the read of \<^verbatim>\<open>content\<close> is a \<^verbatim>\<open>TypeError\<close>. On a node,
  a content that is absent reads as the text \<^verbatim>\<open>undefined\<close>. A value that is not a node
  is never met there (lemma \<open>append_not_Foreign\<close> below).
\<close>

datatype error = TypeError

definition fsWriteFile :: "timestamp \<Rightarrow> vfs \<Rightarrow> string \<Rightarrow> string \<Rightarrow> bool \<Rightarrow> error + vfs" where
  "fsWriteFile now fs p0 c appendFlag =
     (let p = normPath p0
      in if appendFlag \<and> fsIsFile fs p then
           (case lookup fs p of
              Some (Node n) \<Rightarrow>
                Inr (assign fs p
                       (n\<lparr>content := Some ((case content n of None \<Rightarrow> ''undefined'' | Some s \<Rightarrow> s) @ c),
                          modified := Some now\<rparr>))
            | _ \<Rightarrow> Inl TypeError)
         else
           Inr (assign fs p
                  \<lparr>ntype = Some FileT, content = Some c,
                   created =
                     Some (case lookup fs p of
                             Some (Node n) \<Rightarrow> (case created n of Some t \<Rightarrow> t | None \<Rightarrow> now)
                           | _ \<Rightarrow> now),
                   modified = Some now\<rparr>))"

text \<open>
  \<^verbatim>\<open>Object.keys(vfs)\<close> lists the own properties, and \<^verbatim>\<open>delete vfs[k]\<close> removes an
  own property and nothing else.
\<close>

definition fsDelete :: "vfs \<Rightarrow> string \<Rightarrow> bool \<times> vfs" where
  "fsDelete fs p0 =
     (let p = normPath p0
      in if \<not> fsExists fs p then (False, fs)
         else if fsIsDir fs p then
           (let prefix = p @ [bsl]
            in (True, fs\<lparr>entries :=
                       (\<lambda>k. if k = p \<or> startsWith k prefix then None else entries fs k)\<rparr>))
         else (True, fs\<lparr>entries := (entries fs)(p := None)\<rparr>))"

text \<open>
  \<^verbatim>\<open>vfs[dst] = { ...vfs[src], modified:now }\<close> copies the fields of the value at \<open>src\<close>,
  while the test \<^verbatim>\<open>fsIsFile(src)\<close> before it has read the value at \<open>normPath src\<close>.
  Spreading undefined, or a value that is not a node, gives none of the four fields.
\<close>

definition fsCopy :: "timestamp \<Rightarrow> vfs \<Rightarrow> string \<Rightarrow> string \<Rightarrow> bool \<times> vfs" where
  "fsCopy now fs src0 dst0 =
     (let src = normPath src0; dst1 = normPath dst0
      in if \<not> fsExists fs src then (False, fs)
         else
           let dst = (if fsIsDir fs dst1
                      then dst1 @ [bsl] @ last (splitBy (\<lambda>c. c = bsl) src) else dst1)
           in if fsIsFile fs src
              then (True, assign fs dst
                      ((case lookup fs src of Some (Node n) \<Rightarrow> n | _ \<Rightarrow> emptyNode)
                         \<lparr>modified := Some now\<rparr>))
              else (False, fs))"

definition fsMove :: "timestamp \<Rightarrow> vfs \<Rightarrow> string \<Rightarrow> string \<Rightarrow> bool \<times> vfs" where
  "fsMove now fs src dst =
     (case fsCopy now fs src dst of
        (False, fs1) \<Rightarrow> (False, fs1)
      | (True, fs1) \<Rightarrow> (True, snd (fsDelete fs1 src)))"

text \<open>
  \<^verbatim>\<open>initFS\<close> when nothing is saved: the default directories and files, each stored
  under its normalised path.
\<close>

abbreviation crlf :: string where
  "crlf \<equiv> [CHR 0x0D, CHR 0x0A]"

definition defaultDirs :: "string list" where
  "defaultDirs =
     [''C:'',
      ''C:'' @ [bsl] @ ''Windows'',
      ''C:'' @ [bsl] @ ''Windows'' @ [bsl] @ ''System32'',
      ''C:'' @ [bsl] @ ''Program Files'',
      ''C:'' @ [bsl] @ ''Program Files (x86)'',
      ''C:'' @ [bsl] @ ''Users'',
      ''C:'' @ [bsl] @ ''Users'' @ [bsl] @ ''PSUser'',
      ''C:'' @ [bsl] @ ''Users'' @ [bsl] @ ''PSUser'' @ [bsl] @ ''Desktop'',
      ''C:'' @ [bsl] @ ''Users'' @ [bsl] @ ''PSUser'' @ [bsl] @ ''Documents'',
      ''C:'' @ [bsl] @ ''Users'' @ [bsl] @ ''PSUser'' @ [bsl] @ ''Downloads'',
      ''C:'' @ [bsl] @ ''Users'' @ [bsl] @ ''PSUser'' @ [bsl] @ ''Pictures'',
      ''C:'' @ [bsl] @ ''Temp'']"

definition defaultFiles :: "(string \<times> string) list" where
  \<open>defaultFiles =
     [(''C:'' @ [bsl] @ ''Users'' @ [bsl] @ ''PSUser'' @ [bsl] @ ''Desktop'' @ [bsl] @ ''readme.txt'',
       ''Welcome to PowerShell To Go!'' @ crlf @
       ''Type Get-Help to see available commands.'' @ crlf @
       ''Use Tab for auto-completion.'' @ crlf @
       ''Use Up/Down arrows for command history.''),
      (''C:'' @ [bsl] @ ''Users'' @ [bsl] @ ''PSUser'' @ [bsl] @ ''Documents'' @ [bsl] @ ''notes.txt'',
       ''My PowerShell notes'' @ crlf @
       ''-------------------'' @ crlf @
       ''Get-ChildItem  - list directory contents'' @ crlf @
       ''Set-Location   - change directory'' @ crlf @
       ''Get-Content    - read a file'' @ crlf @
       ''Set-Content    - write to a file''),
      (''C:'' @ [bsl] @ ''Users'' @ [bsl] @ ''PSUser'' @ [bsl] @ ''Desktop'' @ [bsl] @ ''hello.ps1'',
       ''Write-Host "Hello from PowerShell To Go!" -ForegroundColor Cyan'' @ crlf @
       ''Get-Date''),
      (''C:'' @ [bsl] @ ''Temp'' @ [bsl] @ ''sample.json'',
       ''{'' @ crlf @
       ''  "name": "PowerShell To Go",'' @ crlf @
       ''  "version": "1.0",'' @ crlf @
       ''  "awesome": true'' @ crlf @
       ''}'')]\<close>

definition initFS :: "timestamp \<Rightarrow> vfs" where
  "initFS now =
     (let fs1 = foldl (\<lambda>fs d. assign fs (normPath d)
                    \<lparr>ntype = Some DirT, content = None, created = Some now, modified = Some now\<rparr>)
                  emptyFS defaultDirs
      in foldl (\<lambda>fs (p, c). assign fs (normPath p)
                    \<lparr>ntype = Some FileT, content = Some c, created = Some now, modified = Some now\<rparr>)
               fs1 defaultFiles)"

text \<open>The state the application starts in.\<close>

definition initState :: state where
  "initState =
     \<lparr>cwd = ''C:'' @ [bsl] @ ''Users'' @ [bsl] @ ''PSUser'' @ [bsl] @ ''Desktop'',
      variables = Map.empty, history = [], historyIndex = -1\<rparr>"

section \<open>History\<close>

text \<open>
  \<^verbatim>\<open>addHistory\<close>: a blank line is ignored; otherwise every earlier occurrence of the
  line is filtered out, the line is pushed, and the oldest entry is shifted out when the
  list has grown beyond 200. The write to local storage is outside the model.
\<close>

definition addHistory :: "state \<Rightarrow> string \<Rightarrow> state" where
  "addHistory st cmd =
     (if trim cmd = [] then st
      else
        let h1 = filter (\<lambda>h. h \<noteq> cmd) (history st);
            h2 = h1 @ [cmd];
            h3 = (if length h2 > 200 then tl h2 else h2)
        in st\<lparr>history := h3, historyIndex := int (length h3)\<rparr>)"

section \<open>Variable expansion\<close>

definition getBuiltinVar :: "state \<Rightarrow> string \<Rightarrow> string option" where
  "getBuiltinVar st name =
     (let n = toLowerCase name in
      if n = ''null'' then Some []
      else if n = ''true'' then Some ''True''
      else if n = ''false'' then Some ''False''
      else if n = ''psversiontable'' then Some ''Name:PSToGo Version:1.0''
      else if n = ''env:username'' \<or> n = ''username'' then Some ''PSUser''
      else if n = ''env:computername'' \<or> n = ''computername'' then Some ''PSTOGO-PC''
      else if n = ''home'' then Some (''C:'' @ [bsl] @ ''Users'' @ [bsl] @ ''PSUser'')
      else if n = ''pwd'' then Some (cwd st)
      else None)"

text \<open>The classes \<^verbatim>\<open>[A-Za-z_]\<close> and \<^verbatim>\<open>\w\<close>.\<close>

definition isIdentStart :: "char \<Rightarrow> bool" where
  "isIdentStart c = (isAlpha c \<or> c = CHR ''_'')"

definition isWord :: "char \<Rightarrow> bool" where
  "isWord c = (isAlpha c \<or> isDigit c \<or> c = CHR ''_'')"

text \<open>
  First pass, \<^verbatim>\<open>str.replace(/\$\{([^}]+)\}/g, (_,n) => state.variables[n] ?? '')\<close>:
  at a dollar sign followed by an opening brace, the name runs up to the next closing
  brace; when the name is not empty and the closing brace is there, the whole match is
  replaced by what the lookup \<open>vars\<close> gives for the name, or by nothing, and the scan
  goes on behind the closing brace. Otherwise the character is kept and the scan goes on behind it.
\<close>

function expandBraced :: "(string \<rightharpoonup> string) \<Rightarrow> string \<Rightarrow> string" where
  "expandBraced vars [] = []"
| "expandBraced vars (c # s) =
     (if c = CHR ''$'' \<and> s \<noteq> [] \<and> hd s = CHR ''{'' then
        (let n = takeWhile (\<lambda>x. x \<noteq> CHR ''}'') (tl s);
             rest = dropWhile (\<lambda>x. x \<noteq> CHR ''}'') (tl s)
         in if n \<noteq> [] \<and> rest \<noteq> []
            then (case vars n of None \<Rightarrow> [] | Some v \<Rightarrow> v) @ expandBraced vars (tl rest)
            else c # expandBraced vars s)
      else c # expandBraced vars s)"
  by pat_completeness auto
termination
proof (relation "measure (\<lambda>(vars, s). length s)")
  show "wf (measure (\<lambda>(vars, s). length s))" by simp
next
  fix vars :: "string \<rightharpoonup> string" and c :: char and s n rest :: string
  assume "rest = dropWhile (\<lambda>x. x \<noteq> CHR ''}'') (tl s)"
  then have "length (tl rest) \<le> length s"
    using length_dropWhile_le [of "\<lambda>x. x \<noteq> CHR ''}''" "tl s"] by simp
  then show "((vars, tl rest), (vars, c # s)) \<in> measure (\<lambda>(vars, s). length s)"
    by simp
qed simp_all

text \<open>
  Second pass, \<^verbatim>\<open>.replace(/\$([A-Za-z_]\w*)/g, ...)\<close>: at a dollar sign followed by a
  letter or an underscore, the name is the longest run of word characters; it is
  replaced by the built-in of that name, else by what \<^verbatim>\<open>state.variables[n]\<close> gives,
  else by the dollar sign and the name.
\<close>

function expandBare :: "state \<Rightarrow> string \<Rightarrow> string" where
  "expandBare st [] = []"
| "expandBare st (c # s) =
     (if c = CHR ''$'' \<and> s \<noteq> [] \<and> isIdentStart (hd s) then
        (let n = takeWhile isWord s;
             rest = dropWhile isWord s
         in (case getBuiltinVar st n of
               Some b \<Rightarrow> b
             | None \<Rightarrow> (case getVariable st n of Some v \<Rightarrow> v | None \<Rightarrow> CHR ''$'' # n))
            @ expandBare st rest)
      else c # expandBare st s)"
  by pat_completeness auto
termination
proof (relation "measure (\<lambda>(st, s). length s)")
  show "wf (measure (\<lambda>(st, s). length s))" by simp
next
  fix st :: state and c :: char and s n rest :: string
  assume "rest = dropWhile isWord s"
  then have "length rest \<le> length s"
    by (simp add: length_dropWhile_le)
  then show "((st, rest), (st, c # s)) \<in> measure (\<lambda>(st, s). length s)"
    by simp
qed simp_all

definition expandVariables :: "state \<Rightarrow> string \<Rightarrow> string" where
  "expandVariables st str = expandBare st (expandBraced (getVariable st) str)"

text \<open>A name in the sense of the second pass: \<^verbatim>\<open>[A-Za-z_]\w*\<close>.\<close>

definition isIdent :: "string \<Rightarrow> bool" where
  "isIdent n = (n \<noteq> [] \<and> isIdentStart (hd n) \<and> list_all isWord n)"

section \<open>Numbers\<close>

text \<open>
  A JavaScript number is an IEEE 754 binary64 value: not-a-number, an infinity or a
  zero with its sign (\<open>True\<close> for the negative one), or a finite value that is not zero,
  held as the rational it denotes. Every arithmetic operation computes the exact result
  and rounds it to the nearest binary64 value, ties to the even significand.
\<close>

datatype jsnum = NaN | Inf bool | Zero bool | Fin rat

function bitlen :: "int \<Rightarrow> int" where
  "bitlen n = (if n \<le> 0 then 0 else 1 + bitlen (n div 2))"
  by pat_completeness auto
termination
  by (relation "measure nat") auto

declare bitlen.simps [simp del]

definition pow2 :: "int \<Rightarrow> rat" where
  "pow2 e = (if e \<ge> 0 then 2 ^ nat e else 1 / 2 ^ nat (- e))"

text \<open>The exponent \<open>e\<close> with \<open>2 ^ e \<le> a < 2 ^ (e + 1)\<close>, for a positive rational \<open>a\<close>.\<close>

definition ilog2 :: "rat \<Rightarrow> int" where
  "ilog2 a = (if a \<ge> 1 then bitlen \<lfloor>a\<rfloor> - 1 else - bitlen (\<lceil>1 / a\<rceil> - 1))"

definition roundEven :: "rat \<Rightarrow> int" where
  "roundEven x =
     (let f = \<lfloor>x\<rfloor>; d = x - of_int f
      in if d < 1 / 2 then f else if d > 1 / 2 then f + 1 else if even f then f else f + 1)"

text \<open>
  Rounding of an exact result to binary64: 53 bits of significand, the smallest unit
  \<open>2 ^ (-1074)\<close>, overflow to an infinity from \<open>2 ^ 1024\<close> on, underflow to a zero that
  keeps the sign.
\<close>

definition toDouble :: "rat \<Rightarrow> jsnum" where
  "toDouble x =
     (if x = 0 then Zero False
      else
        let a = \<bar>x\<bar>;
            k = max (ilog2 a - 52) (- 1074);
            r = of_int (roundEven (a / pow2 k)) * pow2 k
        in if r = 0 then Zero (x < 0)
           else if r \<ge> pow2 1024 then Inf (x < 0)
           else Fin (if x < 0 then - r else r))"

definition isNaN :: "jsnum \<Rightarrow> bool" where
  "isNaN a = (a = NaN)"

definition isZero :: "jsnum \<Rightarrow> bool" where
  "isZero a = (case a of Zero _ \<Rightarrow> True | _ \<Rightarrow> False)"

text \<open>The sign bit of a number that is not NaN.\<close>

definition negative :: "jsnum \<Rightarrow> bool" where
  "negative a = (case a of NaN \<Rightarrow> False | Inf s \<Rightarrow> s | Zero s \<Rightarrow> s | Fin x \<Rightarrow> x < 0)"

fun jsNeg :: "jsnum \<Rightarrow> jsnum" where
  "jsNeg NaN = NaN"
| "jsNeg (Inf s) = Inf (\<not> s)"
| "jsNeg (Zero s) = Zero (\<not> s)"
| "jsNeg (Fin x) = Fin (- x)"

fun jsAdd :: "jsnum \<Rightarrow> jsnum \<Rightarrow> jsnum" where
  "jsAdd NaN b = NaN"
| "jsAdd a NaN = NaN"
| "jsAdd (Inf s) (Inf t) = (if s = t then Inf s else NaN)"
| "jsAdd (Inf s) b = Inf s"
| "jsAdd a (Inf t) = Inf t"
| "jsAdd (Zero s) (Zero t) = Zero (s \<and> t)"
| "jsAdd (Zero s) (Fin y) = Fin y"
| "jsAdd (Fin x) (Zero t) = Fin x"
| "jsAdd (Fin x) (Fin y) = toDouble (x + y)"

definition jsSub :: "jsnum \<Rightarrow> jsnum \<Rightarrow> jsnum" where
  "jsSub a b = jsAdd a (jsNeg b)"

fun jsMul :: "jsnum \<Rightarrow> jsnum \<Rightarrow> jsnum" where
  "jsMul NaN b = NaN"
| "jsMul a NaN = NaN"
| "jsMul (Inf s) (Zero t) = NaN"
| "jsMul (Zero s) (Inf t) = NaN"
| "jsMul (Inf s) b = Inf (s \<noteq> negative b)"
| "jsMul a (Inf t) = Inf (negative a \<noteq> t)"
| "jsMul (Zero s) b = Zero (s \<noteq> negative b)"
| "jsMul a (Zero t) = Zero (negative a \<noteq> t)"
| "jsMul (Fin x) (Fin y) =
     (case toDouble (x * y) of Zero _ \<Rightarrow> Zero ((x < 0) \<noteq> (y < 0)) | r \<Rightarrow> r)"

fun jsDiv :: "jsnum \<Rightarrow> jsnum \<Rightarrow> jsnum" where
  "jsDiv NaN b = NaN"
| "jsDiv a NaN = NaN"
| "jsDiv (Inf s) (Inf t) = NaN"
| "jsDiv (Inf s) b = Inf (s \<noteq> negative b)"
| "jsDiv a (Inf t) = Zero (negative a \<noteq> t)"
| "jsDiv (Zero s) (Zero t) = NaN"
| "jsDiv (Zero s) (Fin y) = Zero (s \<noteq> (y < 0))"
| "jsDiv (Fin x) (Zero t) = Inf ((x < 0) \<noteq> t)"
| "jsDiv (Fin x) (Fin y) =
     (case toDouble (x / y) of Zero _ \<Rightarrow> Zero ((x < 0) \<noteq> (y < 0)) | r \<Rightarrow> r)"

text \<open>
  The remainder \<^verbatim>\<open>%\<close>: the dividend minus the divisor times the quotient truncated
  towards zero; a zero result has the sign of the dividend.
\<close>

definition truncRat :: "rat \<Rightarrow> int" where
  "truncRat q = (if q \<ge> 0 then \<lfloor>q\<rfloor> else - \<lfloor>- q\<rfloor>)"

fun jsMod :: "jsnum \<Rightarrow> jsnum \<Rightarrow> jsnum" where
  "jsMod NaN b = NaN"
| "jsMod a NaN = NaN"
| "jsMod (Inf s) b = NaN"
| "jsMod a (Zero t) = NaN"
| "jsMod a (Inf t) = a"
| "jsMod (Zero s) (Fin y) = Zero s"
| "jsMod (Fin x) (Fin y) =
     (let r = x - y * of_int (truncRat (x / y))
      in if r = 0 then Zero (x < 0) else Fin r)"

text \<open>Strict equality \<^verbatim>\<open>===\<close> of numbers, and the comparison \<^verbatim>\<open><\<close>.\<close>

definition jsEq :: "jsnum \<Rightarrow> jsnum \<Rightarrow> bool" where
  "jsEq a b = (a \<noteq> NaN \<and> b \<noteq> NaN \<and> (a = b \<or> (isZero a \<and> isZero b)))"

fun jsLess :: "jsnum \<Rightarrow> jsnum \<Rightarrow> bool" where
  "jsLess NaN b = False"
| "jsLess a NaN = False"
| "jsLess (Inf s) (Inf t) = (s \<and> \<not> t)"
| "jsLess (Inf s) b = s"
| "jsLess a (Inf t) = (\<not> t)"
| "jsLess (Zero s) (Zero t) = False"
| "jsLess (Zero s) (Fin y) = (0 < y)"
| "jsLess (Fin x) (Zero t) = (x < 0)"
| "jsLess (Fin x) (Fin y) = (x < y)"

definition jsLessEq :: "jsnum \<Rightarrow> jsnum \<Rightarrow> bool" where
  "jsLessEq a b = (jsLess a b \<or> jsEq a b)"

text \<open>The value of a run of decimal digits.\<close>

definition digitVal :: "char \<Rightarrow> int" where
  "digitVal c = int (of_char c) - 48"

definition digitsVal :: "string \<Rightarrow> int" where
  "digitsVal s = foldl (\<lambda>acc c. 10 * acc + digitVal c) 0 s"

text \<open>The number denoted by the decimal \<open>i.f\<close> times ten to the power \<open>ex\<close>.\<close>

definition decimalValue :: "string \<Rightarrow> string \<Rightarrow> int \<Rightarrow> jsnum" where
  "decimalValue i f ex =
     (let m = of_int (digitsVal i) + of_int (digitsVal f) / 10 ^ length f;
          v = (if ex \<ge> 0 then m * 10 ^ nat ex else m / 10 ^ nat (- ex))
      in toDouble v)"

text \<open>
  \<^verbatim>\<open>parseFloat\<close> on a token of the tokenizer, a run of digits and dots: the longest
  prefix that is a decimal literal (digits, then at most one dot and digits, with a
  digit somewhere) gives the value, and there is no value when no such prefix exists.
\<close>

definition parseFloat :: "string \<Rightarrow> jsnum" where
  "parseFloat s =
     (let i = takeWhile isDigit s; rest = dropWhile isDigit s
      in if rest \<noteq> [] \<and> hd rest = CHR ''.''
         then (let f = takeWhile isDigit (tl rest)
               in if i = [] \<and> f = [] then NaN else decimalValue i f 0)
         else if i = [] then NaN else decimalValue i [] 0)"

section \<open>Safe arithmetic evaluator\<close>

text \<open>A token \<^verbatim>\<open>{ t:'num', v }\<close> or \<^verbatim>\<open>{ t:'op', v }\<close>.\<close>

datatype tok = TNum jsnum | TOp char

definition isNumChar :: "char \<Rightarrow> bool" where
  "isNumChar c = (isDigit c \<or> c = CHR ''.'')"

definition isOpChar :: "char \<Rightarrow> bool" where
  "isOpChar c = (c \<in> set ''+-*/%()'')"

text \<open>
  The tokenizer: white space is skipped, a run of digits and dots is one number token,
  each of the seven operator and parenthesis characters is a token, and any other
  character ends the evaluation with NaN (\<open>None\<close> here).
\<close>

function tokenize :: "string \<Rightarrow> tok list option" where
  "tokenize [] = Some []"
| "tokenize (c # s) =
     (if isSpace c then tokenize s
      else if isNumChar c then
        (case tokenize (dropWhile isNumChar s) of
           None \<Rightarrow> None
         | Some ts \<Rightarrow> Some (TNum (parseFloat (c # takeWhile isNumChar s)) # ts))
      else if isOpChar c then
        (case tokenize s of None \<Rightarrow> None | Some ts \<Rightarrow> Some (TOp c # ts))
      else None)"
  by pat_completeness auto
termination
proof (relation "measure length")
  fix c :: char and s :: string
  have "length (dropWhile isNumChar s) \<le> length s"
    by (rule length_dropWhile_le)
  then show "(dropWhile isNumChar s, c # s) \<in> measure length"
    by simp
qed simp_all

text \<open>
  The recursive-descent parser. The position \<^verbatim>\<open>pos\<close> in the token array is the list of
  the tokens not yet consumed: \<^verbatim>\<open>peek()\<close> is its head and \<^verbatim>\<open>consume()\<close> drops the head.
  Each function returns its value and the tokens left. \<open>clamp\<close> bounds the tokens a call
  leaves by the tokens it was given, which makes the recursion well-founded; it never
  changes anything, as \<open>clamp_parse\<close> below shows.
\<close>

definition clamp :: "tok list \<Rightarrow> tok list \<Rightarrow> tok list" where
  "clamp ts rest = (if length rest \<le> length ts then rest else ts)"

function parseExpr :: "tok list \<Rightarrow> jsnum \<times> tok list"
  and exprLoop :: "jsnum \<Rightarrow> tok list \<Rightarrow> jsnum \<times> tok list"
  and parseTerm :: "tok list \<Rightarrow> jsnum \<times> tok list"
  and termLoop :: "jsnum \<Rightarrow> tok list \<Rightarrow> jsnum \<times> tok list"
  and parseFactor :: "tok list \<Rightarrow> jsnum \<times> tok list"
where
  "parseExpr ts = (case parseTerm ts of (left, rest) \<Rightarrow> exprLoop left (clamp ts rest))"
| "exprLoop left [] = (left, [])"
| "exprLoop left (t # ts) =
     (if t = TOp (CHR ''+'') \<or> t = TOp (CHR ''-'') then
        (case parseTerm ts of (right, rest) \<Rightarrow>
           exprLoop (if t = TOp (CHR ''+'') then jsAdd left right else jsSub left right)
             (clamp ts rest))
      else (left, t # ts))"
| "parseTerm ts = (case parseFactor ts of (left, rest) \<Rightarrow> termLoop left (clamp ts rest))"
| "termLoop left [] = (left, [])"
| "termLoop left (t # ts) =
     (if t = TOp (CHR ''*'') \<or> t = TOp (CHR ''/'') \<or> t = TOp (CHR ''%'') then
        (case parseFactor ts of (right, rest) \<Rightarrow>
           termLoop
             (if t = TOp (CHR ''*'') then jsMul left right
              else if t = TOp (CHR ''/'') then
                (if \<not> jsEq right (Zero False) then jsDiv left right else NaN)
              else jsMod left right)
             (clamp ts rest))
      else (left, t # ts))"
| "parseFactor [] = (NaN, [])"
| "parseFactor (TNum v # ts) = (v, ts)"
| "parseFactor (TOp c # ts) =
     (if c = CHR ''('' then
        (case parseExpr ts of (val, rest) \<Rightarrow>
           (val, (case rest of
                    TOp c' # rest' \<Rightarrow> if c' = CHR '')'' then rest' else rest
                  | _ \<Rightarrow> rest)))
      else if c = CHR ''-'' then (case parseFactor ts of (v, rest) \<Rightarrow> (jsNeg v, rest))
      else if c = CHR ''+'' then parseFactor ts
      else (NaN, TOp c # ts))"
  by pat_completeness auto
termination
  by (relation "measure (\<lambda>x. case x of
          Inl (Inl ts) \<Rightarrow> 5 * length ts + 4
        | Inl (Inr (left, ts)) \<Rightarrow> 5 * length ts + 3
        | Inr (Inl ts) \<Rightarrow> 5 * length ts + 2
        | Inr (Inr (Inl (left, ts))) \<Rightarrow> 5 * length ts + 1
        | Inr (Inr (Inr ts)) \<Rightarrow> 5 * length ts)")
    (auto simp: clamp_def)

declare parseExpr.simps [simp del] exprLoop.simps [simp del] parseTerm.simps [simp del]
  termLoop.simps [simp del] parseFactor.simps [simp del]

text \<open>
  \<^verbatim>\<open>safeArith\<close>: tokenize, parse an expression from the first token, and return the
  value when every token was consumed and the value is a number; NaN otherwise.
\<close>

definition safeArith :: "string \<Rightarrow> jsnum" where
  "safeArith expr =
     (case tokenize expr of
        None \<Rightarrow> NaN
      | Some tokens \<Rightarrow>
          (case parseExpr tokens of
             (result, rest) \<Rightarrow> if rest = [] \<and> \<not> isNaN result then result else NaN))"

section \<open>The parser with a record of divisions by zero\<close>

text \<open>
  The same parser, returning in addition whether the branch
  \<^verbatim>\<open>right !== 0 ? left / right : NaN\<close> has met a zero divisor so far. The values and the
  tokens left are those of the parser itself (\<open>parseZ_parse\<close> below).
\<close>

function parseExprZ :: "tok list \<Rightarrow> jsnum \<times> tok list \<times> bool"
  and exprLoopZ :: "jsnum \<Rightarrow> bool \<Rightarrow> tok list \<Rightarrow> jsnum \<times> tok list \<times> bool"
  and parseTermZ :: "tok list \<Rightarrow> jsnum \<times> tok list \<times> bool"
  and termLoopZ :: "jsnum \<Rightarrow> bool \<Rightarrow> tok list \<Rightarrow> jsnum \<times> tok list \<times> bool"
  and parseFactorZ :: "tok list \<Rightarrow> jsnum \<times> tok list \<times> bool"
where
  "parseExprZ ts = (case parseTermZ ts of (left, rest, z) \<Rightarrow> exprLoopZ left z (clamp ts rest))"
| "exprLoopZ left z [] = (left, [], z)"
| "exprLoopZ left z (t # ts) =
     (if t = TOp (CHR ''+'') \<or> t = TOp (CHR ''-'') then
        (case parseTermZ ts of (right, rest, z') \<Rightarrow>
           exprLoopZ (if t = TOp (CHR ''+'') then jsAdd left right else jsSub left right)
             (z \<or> z') (clamp ts rest))
      else (left, t # ts, z))"
| "parseTermZ ts = (case parseFactorZ ts of (left, rest, z) \<Rightarrow> termLoopZ left z (clamp ts rest))"
| "termLoopZ left z [] = (left, [], z)"
| "termLoopZ left z (t # ts) =
     (if t = TOp (CHR ''*'') \<or> t = TOp (CHR ''/'') \<or> t = TOp (CHR ''%'') then
        (case parseFactorZ ts of (right, rest, z') \<Rightarrow>
           termLoopZ
             (if t = TOp (CHR ''*'') then jsMul left right
              else if t = TOp (CHR ''/'') then
                (if \<not> jsEq right (Zero False) then jsDiv left right else NaN)
              else jsMod left right)
             (z \<or> z' \<or> (t = TOp (CHR ''/'') \<and> jsEq right (Zero False)))
             (clamp ts rest))
      else (left, t # ts, z))"
| "parseFactorZ [] = (NaN, [], False)"
| "parseFactorZ (TNum v # ts) = (v, ts, False)"
| "parseFactorZ (TOp c # ts) =
     (if c = CHR ''('' then
        (case parseExprZ ts of (val, rest, z) \<Rightarrow>
           (val, (case rest of
                    TOp c' # rest' \<Rightarrow> if c' = CHR '')'' then rest' else rest
                  | _ \<Rightarrow> rest), z))
      else if c = CHR ''-'' then (case parseFactorZ ts of (v, rest, z) \<Rightarrow> (jsNeg v, rest, z))
      else if c = CHR ''+'' then parseFactorZ ts
      else (NaN, TOp c # ts, False))"
  by pat_completeness auto
termination
  by (relation "measure (\<lambda>x. case x of
          Inl (Inl ts) \<Rightarrow> 5 * length ts + 4
        | Inl (Inr (left, z, ts)) \<Rightarrow> 5 * length ts + 3
        | Inr (Inl ts) \<Rightarrow> 5 * length ts + 2
        | Inr (Inr (Inl (left, z, ts))) \<Rightarrow> 5 * length ts + 1
        | Inr (Inr (Inr ts)) \<Rightarrow> 5 * length ts)")
    (auto simp: clamp_def)

declare parseExprZ.simps [simp del] exprLoopZ.simps [simp del] parseTermZ.simps [simp del]
  termLoopZ.simps [simp del] parseFactorZ.simps [simp del]

text \<open>A division by zero occurs in the evaluation of an input.\<close>

definition divisionByZero :: "string \<Rightarrow> bool" where
  "divisionByZero expr =
     (case tokenize expr of
        None \<Rightarrow> False
      | Some tokens \<Rightarrow> (case parseExprZ tokens of (result, rest, z) \<Rightarrow> z))"

section \<open>The grammar of arithmetic expressions\<close>

text \<open>
  The syntax trees of the grammar
  \<^verbatim>\<open>expr := term (('+'|'-') term)*\<close>, \<^verbatim>\<open>term := factor (('*'|'/'|'%') factor)*\<close>,
  \<^verbatim>\<open>factor := NUMBER | '(' expr ')' | ('-'|'+') factor\<close>, the repetitions read from the
  left, with their tokens and their values: multiplication, division and remainder
  bind tighter than addition and subtraction, and a division by zero is NaN.
\<close>

datatype addop = Plus | Minus

datatype mulop = Times | Divide | Modulo

datatype factor = Number jsnum | Paren expr | Negate factor | Positive factor
  and "term" = TFactor factor | TMul "term" mulop factor
  and expr = ETerm "term" | EAdd expr addop "term"

fun addChar :: "addop \<Rightarrow> char" where
  "addChar Plus = CHR ''+''"
| "addChar Minus = CHR ''-''"

fun mulChar :: "mulop \<Rightarrow> char" where
  "mulChar Times = CHR ''*''"
| "mulChar Divide = CHR ''/''"
| "mulChar Modulo = CHR ''%''"

primrec factorTokens :: "factor \<Rightarrow> tok list"
  and termTokens :: "term \<Rightarrow> tok list"
  and exprTokens :: "expr \<Rightarrow> tok list"
where
  "factorTokens (Number v) = [TNum v]"
| "factorTokens (Paren e) = TOp (CHR ''('') # exprTokens e @ [TOp (CHR '')'')]"
| "factorTokens (Negate f) = TOp (CHR ''-'') # factorTokens f"
| "factorTokens (Positive f) = TOp (CHR ''+'') # factorTokens f"
| "termTokens (TFactor f) = factorTokens f"
| "termTokens (TMul t op f) = termTokens t @ TOp (mulChar op) # factorTokens f"
| "exprTokens (ETerm t) = termTokens t"
| "exprTokens (EAdd e op t) = exprTokens e @ TOp (addChar op) # termTokens t"

fun applyAdd :: "addop \<Rightarrow> jsnum \<Rightarrow> jsnum \<Rightarrow> jsnum" where
  "applyAdd Plus a b = jsAdd a b"
| "applyAdd Minus a b = jsSub a b"

fun applyMul :: "mulop \<Rightarrow> jsnum \<Rightarrow> jsnum \<Rightarrow> jsnum" where
  "applyMul Times a b = jsMul a b"
| "applyMul Divide a b = (if isZero b then NaN else jsDiv a b)"
| "applyMul Modulo a b = jsMod a b"

primrec factorValue :: "factor \<Rightarrow> jsnum"
  and termValue :: "term \<Rightarrow> jsnum"
  and exprValue :: "expr \<Rightarrow> jsnum"
where
  "factorValue (Number v) = v"
| "factorValue (Paren e) = exprValue e"
| "factorValue (Negate f) = jsNeg (factorValue f)"
| "factorValue (Positive f) = factorValue f"
| "termValue (TFactor f) = factorValue f"
| "termValue (TMul t op f) = applyMul op (termValue t) (factorValue f)"
| "exprValue (ETerm t) = termValue t"
| "exprValue (EAdd e op t) = applyAdd op (exprValue e) (termValue t)"

section \<open>Expression evaluator\<close>

text \<open>
  \<^verbatim>\<open>Number(s)\<close> on a string, as the language defines it: white space around the
  literal is ignored, the empty string is zero, a literal is a signed decimal with an
  optional fraction and exponent, \<^verbatim>\<open>Infinity\<close> with an optional sign, or an unsigned
  binary, octal or hexadecimal integer; every other string is NaN.
\<close>

definition hexVal :: "char \<Rightarrow> int option" where
  "hexVal c =
     (let n = int (of_char c) in
      if 48 \<le> n \<and> n \<le> 57 then Some (n - 48)
      else if 97 \<le> n \<and> n \<le> 102 then Some (n - 87)
      else if 65 \<le> n \<and> n \<le> 70 then Some (n - 55)
      else None)"

definition radixValue :: "int \<Rightarrow> string \<Rightarrow> jsnum" where
  "radixValue b ds =
     (if ds \<noteq> [] \<and> list_all (\<lambda>c. case hexVal c of None \<Rightarrow> False | Some d \<Rightarrow> d < b) ds
      then toDouble (of_int (foldl (\<lambda>acc c. b * acc + (case hexVal c of None \<Rightarrow> 0 | Some d \<Rightarrow> d)) 0 ds))
      else NaN)"

definition nonDecimal :: "string \<Rightarrow> jsnum option" where
  "nonDecimal t =
     (case t of
        z # x # ds \<Rightarrow>
          if z \<noteq> CHR ''0'' then None
          else if x = CHR ''x'' \<or> x = CHR ''X'' then Some (radixValue 16 ds)
          else if x = CHR ''o'' \<or> x = CHR ''O'' then Some (radixValue 8 ds)
          else if x = CHR ''b'' \<or> x = CHR ''B'' then Some (radixValue 2 ds)
          else None
      | _ \<Rightarrow> None)"

definition exponentPart :: "string \<Rightarrow> int option" where
  "exponentPart r =
     (if r = [] then Some 0
      else if hd r = CHR ''e'' \<or> hd r = CHR ''E'' then
        (let r1 = tl r;
             neg = (r1 \<noteq> [] \<and> hd r1 = CHR ''-'');
             d = (if r1 \<noteq> [] \<and> (hd r1 = CHR ''-'' \<or> hd r1 = CHR ''+'') then tl r1 else r1)
         in if d \<noteq> [] \<and> list_all isDigit d
            then Some (if neg then - digitsVal d else digitsVal d) else None)
      else None)"

definition unsignedDecimal :: "string \<Rightarrow> jsnum option" where
  "unsignedDecimal u =
     (if u = ''Infinity'' then Some (Inf False)
      else
        let i = takeWhile isDigit u;
            r1 = dropWhile isDigit u;
            dot = (r1 \<noteq> [] \<and> hd r1 = CHR ''.'');
            f = (if dot then takeWhile isDigit (tl r1) else []);
            r2 = (if dot then dropWhile isDigit (tl r1) else r1)
        in if i = [] \<and> f = [] then None
           else (case exponentPart r2 of
                   None \<Rightarrow> None
                 | Some ex \<Rightarrow> Some (decimalValue i f ex)))"

definition jsNumber :: "string \<Rightarrow> jsnum" where
  "jsNumber s =
     (let t = trim s in
      if t = [] then Zero False
      else
        (case nonDecimal t of
           Some v \<Rightarrow> v
         | None \<Rightarrow>
             (let neg = (hd t = CHR ''-'');
                  u = (if hd t = CHR ''-'' \<or> hd t = CHR ''+'' then tl t else t)
              in case unsignedDecimal u of
                   None \<Rightarrow> NaN
                 | Some v \<Rightarrow> if neg then jsNeg v else v)))"

text \<open>\<^verbatim>\<open>String(b)\<close> for a boolean.\<close>

definition boolToString :: "bool \<Rightarrow> string" where
  "boolToString b = (if b then ''true'' else ''false'')"

text \<open>\<^verbatim>\<open>lv.includes(rv)\<close>\<close>

definition jsIncludes :: "string \<Rightarrow> string \<Rightarrow> bool" where
  "jsIncludes s t = list_ex (\<lambda>i. take (length t) (drop i s) = t) [0..<Suc (length s)]"

text \<open>\<^verbatim>\<open>s.replace(/c/g, t)\<close> for a character \<open>c\<close>.\<close>

definition replaceChar :: "char \<Rightarrow> string \<Rightarrow> string \<Rightarrow> string" where
  "replaceChar c t s = concat (map (\<lambda>x. if x = c then t else [x]) s)"

text \<open>
  The result of \<^verbatim>\<open>evalExpression\<close>. Two conversions of the language stay outside the
  model and are results of their own: \<open>NumberText n\<close> is the string \<^verbatim>\<open>String(n)\<close>, and
  \<open>RegExpTest p s neg\<close> is the string of the boolean
  \<^verbatim>\<open>new RegExp(p, 'i').test(s)\<close>, negated when \<open>neg\<close> holds (or the error the constructor
  raises on a pattern that is no regular expression).
\<close>

datatype outcome = Text string | NumberText jsnum | RegExpTest string string bool

text \<open>
  The comparison pattern
  \<^verbatim>\<open>/^(.+?)\s*(-eq|-ne|-lt|-gt|-le|-ge|-like|-notlike|-match|-contains)\s*(.+)$/i\<close>,
  matched by backtracking: the left operand is the shortest prefix of at least one
  character, without a line terminator, behind which white space, an operator (the
  alternatives in their order, letters in either case), white space and a right operand
  of at least one character without a line terminator up to the end are found; each
  run of white space is tried longest first.
\<close>

definition isLT :: "char \<Rightarrow> bool" where
  "isLT c = (c = CHR 0x0A \<or> c = CHR 0x0D)"

definition cmpOps :: "string list" where
  "cmpOps = [''-eq'', ''-ne'', ''-lt'', ''-gt'', ''-le'', ''-ge'', ''-like'', ''-notlike'',
             ''-match'', ''-contains'']"

fun firstSome :: "('a \<Rightarrow> 'b option) \<Rightarrow> 'a list \<Rightarrow> 'b option" where
  "firstSome f [] = None"
| "firstSome f (x # xs) = (case f x of Some y \<Rightarrow> Some y | None \<Rightarrow> firstSome f xs)"

text \<open>The suffixes of \<open>t\<close> behind its leading white space, the shortest suffix first.\<close>

definition afterSpace :: "string \<Rightarrow> string list" where
  "afterSpace t = map (\<lambda>w. drop w t) (rev [0..<Suc (length (takeWhile isSpace t))])"

definition tailMatch :: "string \<Rightarrow> string option" where
  "tailMatch t =
     firstSome (\<lambda>r. if r \<noteq> [] \<and> list_all (\<lambda>c. \<not> isLT c) r then Some r else None)
       (afterSpace t)"

definition opMatch :: "string \<Rightarrow> (string \<times> string) option" where
  "opMatch s =
     firstSome (\<lambda>op. if length op \<le> length s \<and> toLowerCase (take (length op) s) = op
                     then (case tailMatch (drop (length op) s) of
                             None \<Rightarrow> None
                           | Some r \<Rightarrow> Some (take (length op) s, r))
                     else None)
       cmpOps"

fun cmpScan :: "string \<Rightarrow> string \<Rightarrow> (string \<times> string \<times> string) option" where
  "cmpScan l rest =
     (case firstSome opMatch (afterSpace rest) of
        Some (op, r) \<Rightarrow> Some (l, op, r)
      | None \<Rightarrow>
          (case rest of
             [] \<Rightarrow> None
           | c # rest' \<Rightarrow> if isLT c then None else cmpScan (l @ [c]) rest'))"

declare cmpScan.simps [simp del]

definition cmpMatch :: "string \<Rightarrow> (string \<times> string \<times> string) option" where
  "cmpMatch expr =
     (case expr of
        [] \<Rightarrow> None
      | c # rest \<Rightarrow> if isLT c then None else cmpScan [c] rest)"

text \<open>\<^verbatim>\<open>/^[\d\s+\-*/%.()]+$/.test(expr)\<close>\<close>

definition arithChars :: "string \<Rightarrow> bool" where
  "arithChars expr =
     (expr \<noteq> [] \<and> list_all (\<lambda>c. isDigit c \<or> isSpace c \<or> c \<in> set ''+-*/%.()'') expr)"

definition evalComparison :: "string \<Rightarrow> string \<Rightarrow> string \<Rightarrow> string \<Rightarrow> outcome" where
  "evalComparison expr l op r =
     (let lv = stripQuotes (trim l);
          rv = stripQuotes (trim r);
          lop = toLowerCase op
      in if lop = ''-eq'' then Text (boolToString (lv = rv))
         else if lop = ''-ne'' then Text (boolToString (lv \<noteq> rv))
         else if lop = ''-lt'' then Text (boolToString (jsLess (jsNumber lv) (jsNumber rv)))
         else if lop = ''-gt'' then Text (boolToString (jsLess (jsNumber rv) (jsNumber lv)))
         else if lop = ''-le'' then Text (boolToString (jsLessEq (jsNumber lv) (jsNumber rv)))
         else if lop = ''-ge'' then Text (boolToString (jsLessEq (jsNumber rv) (jsNumber lv)))
         else if lop = ''-like'' then
           RegExpTest (''^'' @ replaceChar (CHR ''?'') ''.'' (replaceChar (CHR ''*'') ''.*'' rv) @ ''$'')
             lv False
         else if lop = ''-notlike'' then
           RegExpTest (''^'' @ replaceChar (CHR ''?'') ''.'' (replaceChar (CHR ''*'') ''.*'' rv) @ ''$'')
             lv True
         else if lop = ''-match'' then RegExpTest rv lv False
         else if lop = ''-contains'' then Text (boolToString (jsIncludes lv rv))
         else Text expr)"

definition evalExpression :: "state \<Rightarrow> string \<Rightarrow> outcome" where
  "evalExpression st expr0 =
     (let expr = expandVariables st (trim expr0)
      in if arithChars expr \<and> \<not> isNaN (safeArith expr) then NumberText (safeArith expr)
         else (case cmpMatch expr of
                 Some (l, op, r) \<Rightarrow> evalComparison expr l op r
               | None \<Rightarrow> Text expr))"

section \<open>Auxiliary predicates\<close>

text \<open>
  A path whose first character is not one of the two whose capital is outside the
  characters of the model, the micro sign U+00B5 and U+00FF.
\<close>

definition modelled :: "string \<Rightarrow> bool" where
  "modelled p = (\<not> startsWith p [CHR 0xB5] \<and> \<not> startsWith p [CHR 0xFF])"

text \<open>A string without two adjacent backslashes.\<close>

fun nodbl :: "string \<Rightarrow> bool" where
  "nodbl (a # b # s) = (\<not> (a = bsl \<and> b = bsl) \<and> nodbl (b # s))"
| "nodbl s = True"

text \<open>A token list that does not start with a multiplicative operator.\<close>

definition noMul :: "tok list \<Rightarrow> bool" where
  "noMul rest = (case rest of [] \<Rightarrow> True
     | t # _ \<Rightarrow> t \<noteq> TOp (CHR ''*'') \<and> t \<noteq> TOp (CHR ''/'') \<and> t \<noteq> TOp (CHR ''%''))"

text \<open>The value and the tokens left, without the record of divisions by zero.\<close>

definition proj :: "jsnum \<times> tok list \<times> bool \<Rightarrow> jsnum \<times> tok list" where
  "proj x = (fst x, fst (snd x))"

section \<open>Properties of path normalisation and of the filesystem\<close>

text \<open>
  Every character but the sharp s has a capital of one character, which is its own
  capital and is a slash only when the character is.
\<close>

lemma upperChar_single:
  assumes "c \<noteq> CHR 0xDF"
  shows "\<exists>u. upperChar c = [u] \<and> upperChar u = [u] \<and> (c \<noteq> CHR ''/'' \<longrightarrow> u \<noteq> CHR ''/'')"
proof (cases c)
  case (Char b0 b1 b2 b3 b4 b5 b6 b7)
  with assms show ?thesis
    by (cases b0; cases b1; cases b2; cases b3; cases b4; cases b5; cases b6; cases b7)
       (simp_all add: upperChar_def Let_def)
qed

lemma upperChar_alpha:
  assumes "isAlpha c"
  shows "\<exists>u. upperChar c = [u] \<and> isAlpha u"
proof (cases c)
  case (Char b0 b1 b2 b3 b4 b5 b6 b7)
  with assms show ?thesis
    by (cases b0; cases b1; cases b2; cases b3; cases b4; cases b5; cases b6; cases b7)
       (simp_all add: upperChar_def isAlpha_def Let_def)
qed

lemma collapse_hd: "\<exists>t. collapse (b # s) = b # t"
  by (induction s arbitrary: b) auto

lemma nodbl_collapse: "nodbl (collapse s)"
proof (induction s rule: collapse.induct)
  case (1 a b s)
  obtain t where t: "collapse (b # s) = b # t" using collapse_hd by blast
  with 1 show ?case by auto
qed simp_all

lemma collapse_id: "nodbl s \<Longrightarrow> collapse s = s"
  by (induction s rule: collapse.induct) auto

lemma set_collapse: "set (collapse s) \<subseteq> set s"
  by (induction s rule: collapse.induct) auto

lemma slashes_id: "CHR ''/'' \<notin> set s \<Longrightarrow> slashes s = s"
  by (induction s) (auto simp: slashes_def)

lemma set_slashes: "CHR ''/'' \<notin> set (slashes s)"
  by (induction s) (auto simp: slashes_def)

lemma nodbl_iff:
  "nodbl s \<longleftrightarrow> (\<forall>i. Suc i < length s \<longrightarrow> \<not> (s ! i = bsl \<and> s ! Suc i = bsl))"
proof (induction s rule: nodbl.induct)
  case (1 a b s)
  show ?case
  proof
    assume l: "nodbl (a # b # s)"
    show "\<forall>i. Suc i < length (a # b # s) \<longrightarrow> \<not> ((a # b # s) ! i = bsl \<and> (a # b # s) ! Suc i = bsl)"
    proof (intro allI impI)
      fix i assume "Suc i < length (a # b # s)"
      with l 1 show "\<not> ((a # b # s) ! i = bsl \<and> (a # b # s) ! Suc i = bsl)"
        by (cases i) auto
    qed
  next
    assume r: "\<forall>i. Suc i < length (a # b # s) \<longrightarrow> \<not> ((a # b # s) ! i = bsl \<and> (a # b # s) ! Suc i = bsl)"
    from r [rule_format, of 0] have h0: "\<not> (a = bsl \<and> b = bsl)" by simp
    have "\<forall>i. Suc i < length (b # s) \<longrightarrow> \<not> ((b # s) ! i = bsl \<and> (b # s) ! Suc i = bsl)"
    proof (intro allI impI)
      fix i assume "Suc i < length (b # s)"
      with r [rule_format, of "Suc i"] show "\<not> ((b # s) ! i = bsl \<and> (b # s) ! Suc i = bsl)"
        by simp
    qed
    with 1 h0 show "nodbl (a # b # s)" by simp
  qed
qed simp_all

lemma nodbl_butlast: "nodbl s \<Longrightarrow> nodbl (butlast s)"
  by (simp add: nodbl_iff nth_butlast)

lemma nodbl_last:
  assumes "nodbl s" and "length s \<ge> 2" and "last s = bsl"
  shows "last (butlast s) \<noteq> bsl"
proof -
  have ne: "s \<noteq> []" "butlast s \<noteq> []" using assms(2) by (auto simp: butlast_conv_take)
  have a: "last s = s ! (length s - 1)" using ne by (simp add: last_conv_nth)
  have b: "last (butlast s) = s ! (length s - 2)"
    using ne assms(2) by (simp add: last_conv_nth nth_butlast numeral_2_eq_2)
  have "Suc (length s - 2) < length s" "Suc (length s - 2) = length s - 1" using assms(2) by auto
  with assms(1) have "\<not> (s ! (length s - 2) = bsl \<and> s ! (length s - 1) = bsl)"
    by (metis nodbl_iff)
  with a b assms(3) show ?thesis by simp
qed

lemma endsWith_single: "endsWith s [c] \<longleftrightarrow> s \<noteq> [] \<and> last s = c"
  by (cases s rule: rev_cases) (auto simp: endsWith_def)

text \<open>
  Normalising twice is normalising once for every path that does not start with the
  sharp s.
\<close>

lemma normPath_normPath:
  assumes "\<not> startsWith p [CHR 0xDF]" and "modelled p"
  shows "normPath (normPath p) = normPath p"
proof (cases "p = []")
  case True
  then show ?thesis by (simp add: normPath_def)
next
  case False
  define p1 where "p1 = collapse (slashes p)"
  define p2 where "p2 = (if endsWith p1 [bsl] \<and> length p1 > 3 then butlast p1 else p1)"
  define r where "r = (if length p2 \<ge> 2 \<and> p2 ! 1 = CHR '':'' then toUpperCase [p2 ! 0] @ drop 1 p2 else p2)"
  have np: "normPath p = r"
    using False unfolding normPath_def Let_def p1_def [symmetric] p2_def [symmetric] r_def [symmetric] by simp
  obtain a s where as: "slashes p = a # s" "a \<noteq> CHR 0xDF"
    using False assms(1) by (cases p) (auto simp: slashes_def startsWith_def)
  obtain t where t: "p1 = a # t"
    using collapse_hd [of a s] as(1) by (auto simp: p1_def)
  have p1_ne: "p1 \<noteq> []" using t by simp
  have p1_ok: "nodbl p1" "CHR ''/'' \<notin> set p1"
    using nodbl_collapse set_collapse [of "slashes p"] set_slashes [of p] by (auto simp: p1_def)
  have p2_hd: "\<exists>t'. p2 = a # t'"
    using t by (cases t) (auto simp: p2_def)
  have p2_ne: "p2 \<noteq> []"
    using p2_hd by auto
  have p2_ok: "nodbl p2" "CHR ''/'' \<notin> set p2"
    using p1_ok by (auto simp: p2_def nodbl_butlast dest: in_set_butlastD)
  have p2_end: "\<not> (endsWith p2 [bsl] \<and> length p2 > 3)"
  proof (cases "endsWith p1 [bsl] \<and> length p1 > 3")
    case True
    then have "last p1 = bsl" "length p1 \<ge> 2" by (auto simp: endsWith_single)
    with p1_ok(1) have "last (butlast p1) \<noteq> bsl" using nodbl_last by blast
    with True show ?thesis by (simp add: p2_def endsWith_single)
  next
    case False
    then show ?thesis by (auto simp: p2_def)
  qed
  have shape: "r = p2 \<and> \<not> (length p2 \<ge> 2 \<and> p2 ! 1 = CHR '':'')
      \<or> (\<exists>u rest. p2 = a # CHR '':'' # rest \<and> r = u # CHR '':'' # rest
            \<and> upperChar u = [u] \<and> u \<noteq> CHR ''/'')"
  proof (cases "length p2 \<ge> 2 \<and> p2 ! 1 = CHR '':''")
    case True
    with p2_hd obtain rest where p2: "p2 = a # CHR '':'' # rest"
      by (cases p2; cases "tl p2") auto
    have "a \<noteq> CHR ''/''" using p2_ok(2) p2 by auto
    with upperChar_single [OF as(2)] obtain u
      where "upperChar a = [u]" "upperChar u = [u]" "u \<noteq> CHR ''/''" by blast
    with True p2 show ?thesis by (auto simp: r_def toUpperCase_def)
  next
    case False
    then show ?thesis by (auto simp: r_def)
  qed
  have r_len: "length r = length p2"
    using shape by auto
  have r_ne: "r \<noteq> []" using p2_ne r_len by auto
  have r_last: "last r = last p2"
    using shape by auto
  have r_ok: "nodbl r" "CHR ''/'' \<notin> set r"
    using shape p2_ok by auto
  have r1: "collapse (slashes r) = r"
    using r_ok by (simp add: slashes_id collapse_id)
  have r2: "\<not> (endsWith r [bsl] \<and> length r > 3)"
    using p2_end r_len r_last r_ne p2_ne by (simp add: endsWith_single)
  have r3: "(if length r \<ge> 2 \<and> r ! 1 = CHR '':'' then toUpperCase [r ! 0] @ drop 1 r else r) = r"
    using shape by (auto simp: toUpperCase_def)
  have e: "(if endsWith r [bsl] \<and> length r > 3 then butlast r else r) = r"
    using r2 by auto
  have "normPath r =
      (if length r \<ge> 2 \<and> r ! 1 = CHR '':'' then toUpperCase [r ! 0] @ drop 1 r else r)"
    using r_ne unfolding normPath_def Let_def r1 e by simp
  then show ?thesis by (simp only: np r3)
qed

lemmas path_eval = normPath_def slashes_def endsWith_def startsWith_def toUpperCase_def
  upperChar_def Let_def

text \<open>
  C8. Path normalisation is not idempotent. The capital of the sharp s (U+00DF) is the
  two letters \<open>SS\<close>, so the path made of the sharp s, a colon and a backslash has the
  normal form \<^verbatim>\<open>SS:\<close> followed by a backslash: four characters, the trailing
  backslash being kept because the path had three characters when it was tested. The
  normal form of that is \<^verbatim>\<open>SS:\<close>, the trailing backslash being dropped this time.
\<close>

theorem normPath_sharp_s_not_idempotent:
  "normPath [CHR 0xDF, CHR '':'', bsl] = ''SS:'' @ [bsl]
   \<and> normPath (normPath [CHR 0xDF, CHR '':'', bsl]) = ''SS:''"
  by (simp add: path_eval)

section \<open>Properties of the store\<close>

lemmas fs_eval = fsExists_def fsIsDir_def fsIsFile_def fsGetContent_def fsMkdir_def
  fsWriteFile_def fsDelete_def fsCopy_def fsMove_def lookup_def assign_def emptyFS_def
  emptyNode_def nodeKeys_def objectPrototype_def objectPrototypeMembers_def nativeCode_def
  initFS_def defaultDirs_def defaultFiles_def

lemma lookup_assign: "lookup (assign fs k n) k = Some (Node n)"
  by (auto simp: lookup_def assign_def)

text \<open>
  A key that reads as a value that is not a node is one of sixteen names, and each of
  them is its own normal form.
\<close>

lemma objectPrototype_fixed:
  assumes "objectPrototype k \<noteq> None"
  shows "normPath k = k"
proof -
  have "\<forall>k \<in> set (map fst objectPrototypeMembers). normPath k = k"
    by (simp add: objectPrototypeMembers_def path_eval)
  moreover have "k \<in> set (map fst objectPrototypeMembers)"
    using assms unfolding objectPrototype_def map_of_eq_None_iff by simp
  ultimately show ?thesis by blast
qed

lemma nodeKeys_fixed:
  assumes "k \<in> set (nodeKeys n)"
  shows "normPath k = k"
proof -
  have "k = ''type'' \<or> k = ''content'' \<or> k = ''created'' \<or> k = ''modified''"
    using assms by (auto simp: nodeKeys_def split: if_splits)
  moreover have "normPath ''type'' = ''type''" "normPath ''content'' = ''content''"
    "normPath ''created'' = ''created''" "normPath ''modified'' = ''modified''"
    by (simp_all add: path_eval)
  ultimately show ?thesis by metis
qed

lemma lookup_Foreign:
  assumes "lookup fs k = Some Foreign"
  shows "normPath k = k"
proof -
  have "objectPrototype k \<noteq> None \<or> (\<exists>n. k \<in> set (nodeKeys n))"
    using assms unfolding lookup_def
    by (simp split: option.splits if_splits) blast
  then show ?thesis
    using objectPrototype_fixed nodeKeys_fixed by blast
qed

text \<open>
  In the append branch of \<^verbatim>\<open>fsWriteFile\<close> the value at the path is a node or
  undefined, never a value of another kind.
\<close>

lemma append_not_Foreign: "fsIsFile fs p \<Longrightarrow> lookup fs p \<noteq> Some Foreign"
proof
  assume f: "fsIsFile fs p" and l: "lookup fs p = Some Foreign"
  from l have "normPath p = p" by (rule lookup_Foreign)
  with f l show False by (simp add: fsIsFile_def)
qed
text \<open>Writing and reading back, for a path whose normal form is its own normal form.\<close>

lemma fsWriteFile_roundtrip_stable:
  assumes "normPath (normPath p) = normPath p" and "modelled p"
  shows "\<exists>fs1 fs2. fsWriteFile now fs p x False = Inr fs1 \<and> fsGetContent fs1 p = x
           \<and> fsWriteFile now' fs1 p y True = Inr fs2 \<and> fsGetContent fs2 p = x @ y"
proof -
  let ?n = "\<lparr>ntype = Some FileT, content = Some x,
      created = Some (case lookup fs (normPath p) of
                        Some (Node n) \<Rightarrow> (case created n of Some t \<Rightarrow> t | None \<Rightarrow> now)
                      | _ \<Rightarrow> now),
      modified = Some now\<rparr>"
  let ?fs1 = "assign fs (normPath p) ?n"
  let ?fs2 = "assign ?fs1 (normPath p) (?n\<lparr>content := Some (x @ y), modified := Some now'\<rparr>)"
  have a: "fsWriteFile now fs p x False = Inr ?fs1"
    by (simp add: fsWriteFile_def Let_def)
  have b: "fsGetContent ?fs1 p = x"
    by (simp add: fsGetContent_def lookup_assign)
  have c: "fsWriteFile now' ?fs1 p y True = Inr ?fs2"
    by (simp add: fsWriteFile_def Let_def fsIsFile_def assms(1) lookup_assign)
  have d: "fsGetContent ?fs2 p = x @ y"
    by (simp add: fsGetContent_def lookup_assign)
  from a b c d show ?thesis by blast
qed


text \<open>
  With a file stored under \<^verbatim>\<open>SS:\<close>, the append at that path takes the append branch and
  reads the content of an entry that is not there.
\<close>

lemma fsWriteFile_sharp_s_append_throws:
  "(case fsWriteFile t1 (initFS t0) ''SS:'' ''z'' False of
      Inl e \<Rightarrow> False
    | Inr fs0 \<Rightarrow> fsWriteFile t2 fs0 [CHR 0xDF, CHR '':'', bsl] ''y'' True = Inl TypeError)"
  by (simp add: fs_eval path_eval)
text \<open>Removing, for a path whose normal form is its own normal form.\<close>

lemma fsDelete_dir_stable:
  assumes "normPath (normPath d) = normPath d" and "fsIsDir fs d" and "modelled d"
  shows "fsDelete fs d =
     (True, fs\<lparr>entries :=
        (\<lambda>k. if k = normPath d \<or> startsWith k (normPath d @ [bsl]) then None else entries fs k)\<rparr>)"
proof -
  have "fsExists fs d"
    using assms(2) by (auto simp: fsIsDir_def fsExists_def split: option.splits)
  then show ?thesis
    using assms(1,2) by (simp add: fsDelete_def Let_def fsExists_def fsIsDir_def)
qed

lemma fsDelete_missing_stable:
  assumes "normPath (normPath d) = normPath d" and "\<not> fsExists fs d" and "modelled d"
  shows "fsDelete fs d = (False, fs)"
  using assms(1,2) by (simp add: fsDelete_def Let_def fsExists_def)

text \<open>
  In the default store, after \<^verbatim>\<open>makeDir("C:\a")\<close> and
  \<^verbatim>\<open>writeFile("C:\a\b.txt", "z")\<close>, \<^verbatim>\<open>remove("C:\a")\<close> succeeds and neither path
  exists afterwards; the removal of a path that is not there, \<^verbatim>\<open>D:\<close>, fails and
  leaves the store as it was.
\<close>

lemma fsDelete_example:
  "(case fsWriteFile t2 (snd (fsMkdir t1 (initFS t0) (''C:'' @ [bsl] @ ''a'')))
           (''C:'' @ [bsl] @ ''a'' @ [bsl] @ ''b.txt'') ''z'' False of
      Inl e \<Rightarrow> False
    | Inr fs2 \<Rightarrow>
        (case fsDelete fs2 (''C:'' @ [bsl] @ ''a'') of
           (removed, fs3) \<Rightarrow>
             removed \<and> \<not> fsExists fs3 (''C:'' @ [bsl] @ ''a'')
             \<and> \<not> fsExists fs3 (''C:'' @ [bsl] @ ''a'' @ [bsl] @ ''b.txt'')))
   \<and> fsDelete (initFS t0) ''D:'' = (False, initFS t0)"
  by (simp add: fs_eval path_eval)


text \<open>A move whose copy fails returns failure and leaves the store as it was.\<close>

lemma fsCopy_False_unchanged:
  "\<not> fst (fsCopy now fs src dst) \<Longrightarrow> snd (fsCopy now fs src dst) = fs"
  by (auto simp: fsCopy_def Let_def split: if_splits)

lemma fsMove_copy_fails:
  assumes "\<not> fst (fsCopy now fs src dst)" and "modelled src" and "modelled dst"
  shows "fsMove now fs src dst = (False, fs)"
  using fsCopy_False_unchanged [of now fs src dst] assms(1)
  by (cases "fsCopy now fs src dst") (auto simp: fsMove_def)

text \<open>
  The copy fails when the source does not exist or is a directory, for a source whose
  normal form is its own normal form.
\<close>

lemma fsCopy_fails_stable:
  assumes "normPath (normPath src) = normPath src" and "\<not> fsExists fs src \<or> fsIsDir fs src"
    and "modelled src" and "modelled dst"
  shows "fsCopy now fs src dst = (False, fs)"
proof -
  have "\<not> fsExists fs src \<or> \<not> fsIsFile fs src"
    using assms(2) by (auto simp: fsIsDir_def fsIsFile_def split: option.splits entry.splits)
  then show ?thesis
    using assms(1) by (auto simp: fsCopy_def Let_def fsExists_def fsIsFile_def)
qed

section \<open>Properties of path resolution\<close>

lemmas resolve_eval = resolvePath_def trim_def isSpace_def stripQuotes_def isQuote_def
  isAbsolute_def isAlpha_def

lemma lastIndexOf_notin: "c \<notin> set s \<Longrightarrow> lastIndexOf s c = -1"
  by (induction s) (auto simp: Let_def)

lemma lastIndexOf_append: "c \<notin> set ys \<Longrightarrow> lastIndexOf (xs @ c # ys) c = int (length xs)"
  by (induction xs) (auto simp: Let_def lastIndexOf_notin)

lemma lastIndexOf_less: "lastIndexOf s c < int (length s)"
  by (induction s) (auto simp: Let_def)

text \<open>
  From a working directory of more than two characters, appending a segment and popping
  it with \<^verbatim>\<open>..\<close> gives the working directory back.
\<close>

lemma resolvePath_pop_after_push:
  assumes "length (cwd st) > 2"
  shows "resolvePath st (''a'' @ [bsl] @ ''..'') = normPath (cwd st)"
proof -
  have "lastIndexOf (cwd st @ bsl # ''a'') bsl = int (length (cwd st))"
    by (rule lastIndexOf_append) simp
  then have "walk (cwd st) [''a'', ''..''] = cwd st"
    using assms by (simp add: Let_def)
  then show ?thesis
    by (simp add: resolve_eval Let_def)
qed

text \<open>The loop keeps the first characters of a base, up to three, and so its drive prefix.\<close>

lemma walk_keeps_prefix:
  assumes "k \<le> 3" and "length base \<ge> k"
  shows "take k (walk base parts) = take k base"
  using assms(2)
proof (induction base parts rule: walk.induct)
  case (1 base)
  then show ?case by simp
next
  case (2 base part parts)
  show ?case
  proof (cases "part = [] \<or> part = ''.''")
    case True
    with 2 show ?thesis by simp
  next
    case False
    show ?thesis
    proof (cases "part = ''..''")
      case True
      define idx where "idx = lastIndexOf base bsl"
      define b' where "b' = (if idx > 2 then take (nat idx) base else base)"
      have lt: "idx < int (length base)" by (simp add: idx_def lastIndexOf_less)
      have l: "length b' \<ge> k" using 2(4) lt assms(1) by (auto simp: b'_def)
      have t: "take k b' = take k base" using assms(1) by (auto simp: b'_def min_def)
      have "take k (walk b' parts) = take k b'"
        using 2(2) [OF False True idx_def] l by (simp add: b'_def)
      moreover have "walk base (part # parts) = walk b' parts"
        using True by (simp add: Let_def idx_def b'_def)
      ultimately show ?thesis using t by simp
    next
      case F2: False
      have "take k (walk (base @ [bsl] @ part) parts) = take k (base @ [bsl] @ part)"
        using 2(3) [OF False F2] 2(4) by simp
      then show ?thesis using False F2 2(4) by simp
    qed
  qed
qed

lemma normPath_drive:
  assumes "d \<noteq> CHR ''/''" and "d \<noteq> bsl"
  shows "\<exists>r'. normPath (d # CHR '':'' # r) = upperChar d @ CHR '':'' # r'"
proof -
  obtain t where t: "collapse (CHR '':'' # slashes r) = CHR '':'' # t"
    using collapse_hd by blast
  have p1: "collapse (slashes (d # CHR '':'' # r)) = d # CHR '':'' # t"
    using assms t by (simp add: slashes_def)
  define p2 where "p2 = (if endsWith (d # CHR '':'' # t) [bsl] \<and> length (d # CHR '':'' # t) > 3
      then butlast (d # CHR '':'' # t) else d # CHR '':'' # t)"
  have "\<exists>t'. p2 = d # CHR '':'' # t'"
    by (cases t) (auto simp: p2_def)
  then obtain t' where t': "p2 = d # CHR '':'' # t'" ..
  have "normPath (d # CHR '':'' # r) = upperChar d @ CHR '':'' # t'"
    unfolding normPath_def Let_def p1 p2_def [symmetric] t' by (simp add: toUpperCase_def)
  then show ?thesis ..
qed

lemma isAlpha_not_sep: "isAlpha d \<Longrightarrow> d \<noteq> CHR ''/'' \<and> d \<noteq> bsl"
  by (auto simp: isAlpha_def)

lemma normPath_drive_alpha:
  assumes "isAlpha d"
  shows "\<exists>u r'. normPath (d # CHR '':'' # r) = u # CHR '':'' # r' \<and> isAlpha u \<and> upperChar d = [u]"
proof -
  obtain u where u: "upperChar d = [u]" "isAlpha u"
    using upperChar_alpha [OF assms] by blast
  obtain r' where "normPath (d # CHR '':'' # r) = upperChar d @ CHR '':'' # r'"
    using normPath_drive [of d r] isAlpha_not_sep [OF assms] by blast
  with u show ?thesis by simp
qed

text \<open>
  No path, and so no sequence of \<^verbatim>\<open>..\<close> segments, resolves to less than a drive root:
  from a working directory that starts with a drive letter and a colon, the result of
  \<^verbatim>\<open>resolvePath\<close> starts with a drive letter and a colon too, and for a relative path
  it is the drive of the working directory, in capitals.
\<close>

lemma resolvePath_keeps_drive:
  assumes "cwd st = d # CHR '':'' # r" and "isAlpha d"
  shows "\<exists>u r'. resolvePath st p = u # CHR '':'' # r' \<and> isAlpha u
          \<and> (\<not> isAbsolute (stripQuotes (trim p)) \<longrightarrow> upperChar d = [u])"
proof -
  have c: "\<exists>u r'. normPath (cwd st) = u # CHR '':'' # r' \<and> isAlpha u \<and> upperChar d = [u]"
    unfolding assms(1) using assms(2) by (rule normPath_drive_alpha)
  show ?thesis
  proof (cases "p = [] \<or> p = ''.''")
    case True
    then have "resolvePath st p = normPath (cwd st)" by (auto simp: resolvePath_def)
    with c show ?thesis by auto
  next
    case False
    define p1 where "p1 = stripQuotes (trim p)"
    show ?thesis
    proof (cases "isAbsolute p1")
      case True
      then obtain a q where q: "p1 = a # CHR '':'' # q" "isAlpha a"
        by (auto simp: isAbsolute_def split: list.splits)
      have "\<exists>u r'. normPath p1 = u # CHR '':'' # r' \<and> isAlpha u \<and> upperChar a = [u]"
        unfolding q(1) using q(2) by (rule normPath_drive_alpha)
      moreover have "resolvePath st p = normPath p1"
        using False True by (simp add: resolvePath_def Let_def p1_def)
      ultimately show ?thesis using True by (auto simp: p1_def)
    next
      case F2: False
      define w where "w = walk (cwd st) (splitBy (\<lambda>c. c = CHR ''/'' \<or> c = bsl) p1)"
      have "take 2 w = take 2 (cwd st)"
        unfolding w_def by (rule walk_keeps_prefix) (simp_all add: assms(1))
      then have "take 2 w = [d, CHR '':'']" by (simp add: assms(1))
      then obtain r2 where "w = d # CHR '':'' # r2"
        by (cases w; cases "tl w") auto
      then have "\<exists>u r'. normPath w = u # CHR '':'' # r' \<and> isAlpha u \<and> upperChar d = [u]"
        using normPath_drive_alpha [OF assms(2), of r2] by simp
      moreover have "resolvePath st p = normPath w"
        using False F2 by (simp add: resolvePath_def Let_def p1_def w_def)
      ultimately show ?thesis by auto
    qed
  qed
qed

text \<open>
  C1. The working directory \<^verbatim>\<open>C:\<close> is a directory of the default store and is its own
  normal form, and from it the relative path \<^verbatim>\<open>a\..\<close> resolves to \<^verbatim>\<open>C:\a\<close>: the
  segment \<^verbatim>\<open>..\<close> finds the last separator of \<^verbatim>\<open>C:\a\<close> at index 2, and the loop pops
  only when that index is greater than 2.
\<close>

theorem resolvePath_root_push_pop:
  "fsIsDir (initFS now) ''C:''
   \<and> normPath ''C:'' = ''C:''
   \<and> resolvePath (initState\<lparr>cwd := ''C:''\<rparr>) (''a'' @ [bsl] @ ''..'') = ''C:'' @ [bsl] @ ''a''"
  by (simp add: resolve_eval fs_eval path_eval initState_def)

section \<open>Properties of variable expansion\<close>

lemmas expand_eval = expandVariables_def getBuiltinVar_def isIdentStart_def isWord_def
  isAlpha_def isDigit_def toLowerCase_def toLowerChar_def isIdent_def getVariable_def
  objectPrototype_def objectPrototypeMembers_def nativeCode_def

lemma isWord_not_special:
  "isWord c \<Longrightarrow> c \<noteq> CHR ''$'' \<and> c \<noteq> CHR ''{'' \<and> c \<noteq> CHR ''}''"
  by (auto simp: isWord_def isAlpha_def isDigit_def)

lemma expandBraced_no_dollar: "CHR ''$'' \<notin> set s \<Longrightarrow> expandBraced vars s = s"
  by (induction s) auto

lemma isIdent_chars:
  assumes "isIdent n"
  shows "n \<noteq> []" and "isIdentStart (hd n)" and "takeWhile isWord n = n"
    and "dropWhile isWord n = []" and "CHR ''$'' \<notin> set n" and "CHR ''}'' \<notin> set n"
    and "hd n \<noteq> CHR ''{''"
proof -
  from assms show ne: "n \<noteq> []" and "isIdentStart (hd n)" by (simp_all add: isIdent_def)
  from assms have all: "\<forall>c\<in>set n. isWord c" by (simp add: isIdent_def list_all_iff)
  then show "takeWhile isWord n = n" and "dropWhile isWord n = []" by simp_all
  from all show "CHR ''$'' \<notin> set n" and "CHR ''}'' \<notin> set n"
    using isWord_not_special by blast+
  from all ne have "isWord (hd n)" by simp
  then show "hd n \<noteq> CHR ''{''" using isWord_not_special by blast
qed

lemma expandBraced_braced_ident:
  assumes "isIdent n"
  shows "expandBraced vars (''${'' @ n @ ''}'') = (case vars n of None \<Rightarrow> [] | Some v \<Rightarrow> v)"
proof -
  note c = isIdent_chars [OF assms]
  have t: "takeWhile (\<lambda>x. x \<noteq> CHR ''}'') (n @ ''}'') = n"
    using c(6) by (induction n) auto
  have d: "dropWhile (\<lambda>x. x \<noteq> CHR ''}'') (n @ ''}'') = ''}''"
    using c(6) by (induction n) auto
  show ?thesis
    using c(1) by (simp add: t d Let_def)
qed

lemma expandBraced_bare_ident:
  assumes "isIdent n"
  shows "expandBraced vars (''$'' @ n) = ''$'' @ n"
proof -
  note c = isIdent_chars [OF assms]
  have "expandBraced vars n = n" using c(5) by (rule expandBraced_no_dollar)
  then show ?thesis using c(7) by simp
qed

lemma expandBare_bare_ident:
  assumes "isIdent n"
  shows "expandBare st (''$'' @ n) =
     (case getBuiltinVar st n of
        Some b \<Rightarrow> b
      | None \<Rightarrow> (case getVariable st n of Some v \<Rightarrow> v | None \<Rightarrow> CHR ''$'' # n))"
proof -
  note c = isIdent_chars [OF assms]
  show ?thesis using c(1,2) by (simp add: c(3,4) Let_def)
qed

text \<open>No built-in variable has the name of a member of \<^verbatim>\<open>Object.prototype\<close>.\<close>

lemma builtin_not_member:
  assumes "getBuiltinVar st b = Some v"
  shows "objectPrototype b = None"
proof (rule ccontr)
  assume "objectPrototype b \<noteq> None"
  then have "b \<in> set (map fst objectPrototypeMembers)"
    unfolding objectPrototype_def map_of_eq_None_iff by simp
  moreover have "\<forall>k \<in> set (map fst objectPrototypeMembers). getBuiltinVar st k = None"
    by (simp add: objectPrototypeMembers_def getBuiltinVar_def toLowerCase_def toLowerChar_def
        Let_def)
  ultimately show False using assms by auto
qed

text \<open>
  For a name \<open>foo\<close> (a letter or an underscore followed by word characters) that is no
  built-in and for which the lookup \<^verbatim>\<open>state.variables[foo]\<close> is undefined, the braced
  form expands to the empty string and the bare form is left as it is.
\<close>

lemma expandVariables_undefined_lookup:
  assumes "isIdent foo" and "getVariable st foo = None" and "getBuiltinVar st foo = None"
  shows "expandVariables st (''${'' @ foo @ ''}'') = []
       \<and> expandVariables st (''$'' @ foo) = ''$'' @ foo"
proof -
  have e: "expandBare st [] = []" by simp
  show ?thesis
    using assms
    by (simp add: expandVariables_def expandBraced_braced_ident expandBraced_bare_ident
        expandBare_bare_ident e del: expandBraced.simps expandBare.simps append.simps)
qed

lemma expandVariables_undefined_example:
  "expandVariables initState ''${foo}'' = [] \<and> expandVariables initState ''$foo'' = ''$foo''"
  by (simp add: expand_eval initState_def)

text \<open>
  C4. In the state the application starts in, the name \<^verbatim>\<open>constructor\<close> is defined
  neither as a user variable nor as a built-in, and yet both forms expand to the text of
  a function: \<^verbatim>\<open>state.variables\<close> is a plain object, and the lookup
  \<^verbatim>\<open>state.variables['constructor']\<close> finds the member of that name in
  \<^verbatim>\<open>Object.prototype\<close>.
\<close>

theorem expandVariables_constructor:
  "variables initState ''constructor'' = None
   \<and> getBuiltinVar initState ''constructor'' = None
   \<and> expandVariables initState ''${constructor}'' = ''function Object() { [native code] }''
   \<and> expandVariables initState ''$constructor'' = ''function Object() { [native code] }''"
  by (simp add: expand_eval initState_def)

text \<open>
  C10, as amended. For every built-in variable name \<open>b\<close> that is an identifier (a letter
  or an underscore followed by word characters) and for which no user variable named
  \<open>b\<close> is defined, \<^verbatim>\<open>expandVariables("${b}")\<close> is the empty string and
  \<^verbatim>\<open>expandVariables("$b")\<close> is the value of the built-in: the braced pass reads the user
  variables only.
\<close>

theorem expandVariables_builtin_ident:
  assumes "isIdent b" and "getBuiltinVar st b = Some v" and "variables st b = None"
  shows "expandVariables st (''${'' @ b @ ''}'') = []
       \<and> expandVariables st (''$'' @ b) = v"
proof -
  have e: "expandBare st [] = []" by simp
  have g: "getVariable st b = None"
    using assms(3) builtin_not_member [OF assms(2)] by (simp add: getVariable_def)
  show ?thesis
    using assms(1,2) g
    by (simp add: expandVariables_def expandBraced_braced_ident expandBraced_bare_ident
        expandBare_bare_ident e del: expandBraced.simps expandBare.simps append.simps)
qed

theorem expandVariables_builtin_ident_witness:
  "expandVariables initState ''${PWD}'' = []
   \<and> expandVariables initState ''$PWD'' = ''C:'' @ [bsl] @ ''Users'' @ [bsl] @ ''PSUser'' @ [bsl] @ ''Desktop''"
proof -
  have a: "isIdent ''PWD''" by (simp add: expand_eval)
  have b: "getBuiltinVar initState ''PWD'' = Some (cwd initState)" by (simp add: expand_eval)
  have c: "variables initState ''PWD'' = None" by (simp add: initState_def)
  show ?thesis
    using expandVariables_builtin_ident [OF a b c] by (simp add: initState_def)
qed

text \<open>
  The built-in name \<^verbatim>\<open>env:username\<close> is not an identifier: the bare pass reads the name
  \<^verbatim>\<open>env\<close> in \<^verbatim>\<open>$env:username\<close>, which nothing defines, and leaves the text as it is.
\<close>

theorem expandVariables_env_counterexample:
  "getBuiltinVar initState ''env:username'' = Some ''PSUser''
   \<and> variables initState ''env:username'' = None
   \<and> expandVariables initState ''$env:username'' = ''$env:username''
   \<and> expandVariables initState ''$env:username'' \<noteq> ''PSUser''"
  by (simp add: expand_eval initState_def)
section \<open>Properties of the numbers\<close>

lemma bitlen_nonpos: "n \<le> 0 \<Longrightarrow> bitlen n = 0"
  by (simp add: bitlen.simps)

lemma bitlen_pos: "n > 0 \<Longrightarrow> bitlen n = 1 + bitlen (n div 2)"
  by (subst bitlen.simps) simp

lemma bitlen_ge0: "0 \<le> bitlen n"
  by (induction n rule: bitlen.induct) (subst bitlen.simps, simp)

lemma bitlen_ge1: "0 < n \<Longrightarrow> 1 \<le> bitlen n"
  using bitlen_ge0 [of "n div 2"] by (simp add: bitlen_pos)

lemma bitlen_bound: "n < 2 ^ m \<Longrightarrow> bitlen n \<le> int m"
proof (induction m arbitrary: n)
  case 0
  then show ?case by (simp add: bitlen_nonpos)
next
  case (Suc m)
  show ?case
  proof (cases "n > 0")
    case True
    have "n div 2 < 2 ^ m" using Suc.prems by simp
    then have "bitlen (n div 2) \<le> int m" by (rule Suc.IH)
    then show ?thesis using True by (simp add: bitlen_pos)
  next
    case False
    then show ?thesis by (simp add: bitlen_nonpos)
  qed
qed

lemma roundEven_of_int: "roundEven (of_int m) = m"
  by (simp add: roundEven_def)

text \<open>Every integer of magnitude below \<open>2 ^ 53\<close> is a binary64 value.\<close>

lemma toDouble_of_int:
  assumes "n \<noteq> 0" and "\<bar>n\<bar> < 2 ^ 53"
  shows "toDouble (of_int n) = Fin (of_int n)"
proof -
  define a where "a = \<bar>n\<bar>"
  define b where "b = bitlen a"
  define j where "j = nat (53 - b)"
  have a: "1 \<le> a" "a < 2 ^ 53" using assms by (simp_all add: a_def)
  have abs: "\<bar>of_int n :: rat\<bar> = of_int a" by (simp add: a_def)
  have b: "1 \<le> b" "b \<le> 53"
    using bitlen_ge1 [of a] bitlen_bound [of a 53] a by (simp_all add: b_def)
  have il: "ilog2 (of_int a) = b - 1"
    using a(1) by (simp add: ilog2_def b_def)
  have k: "max (ilog2 (of_int a) - 52) (- 1074) = b - 53"
    using b by (simp add: il)
  have p: "pow2 (b - 53) = 1 / 2 ^ j"
  proof (cases "b = 53")
    case True
    then show ?thesis by (simp add: pow2_def j_def)
  next
    case False
    with b have "b - 53 < 0" by simp
    then show ?thesis by (simp add: pow2_def j_def)
  qed
  have q: "(of_int a :: rat) / pow2 (b - 53) = of_int (a * 2 ^ j)"
    by (simp add: p)
  have r: "of_int (roundEven (of_int a / pow2 (b - 53))) * pow2 (b - 53) = (of_int a :: rat)"
    unfolding q roundEven_of_int by (simp add: p)
  have lt: "(of_int a :: rat) < pow2 1024"
  proof -
    have "(of_int a :: rat) < of_int (2 ^ 53)" using a(2) by (simp only: of_int_less_iff)
    also have "\<dots> \<le> pow2 1024" by (simp add: pow2_def)
    finally show ?thesis .
  qed
  have ne: "(of_int a :: rat) \<noteq> 0" using a(1) by simp
  have sgn: "(if (of_int n :: rat) < 0 then - of_int a else of_int a) = of_int n"
    by (simp add: a_def)
  have "toDouble (of_int n) = Fin (if (of_int n :: rat) < 0 then - of_int a else of_int a)"
    using assms(1) lt ne unfolding toDouble_def abs Let_def k r by simp
  then show ?thesis by (simp only: sgn)
qed

lemma toDouble_numeral [simp]:
  "numeral w < (2 ^ 53 :: int) \<Longrightarrow> toDouble (numeral w) = Fin (numeral w)"
  using toDouble_of_int [of "numeral w"] by simp


lemma toDouble_0 [simp]: "toDouble 0 = Zero False"
  by (simp add: toDouble_def)

lemma toDouble_1 [simp]: "toDouble 1 = Fin 1"
  using toDouble_of_int [of 1] by simp

lemma toDouble_neg_numeral [simp]:
  "numeral w < (2 ^ 53 :: int) \<Longrightarrow> toDouble (- numeral w) = Fin (- numeral w)"
  using toDouble_of_int [of "- numeral w"] by simp


section \<open>Properties of the arithmetic evaluator\<close>

lemma parse_length:
  "length (snd (parseExpr ts)) \<le> length ts"
  "length (snd (exprLoop left ts1)) \<le> length ts1"
  "length (snd (parseTerm ts2)) \<le> length ts2"
  "length (snd (termLoop left2 ts3)) \<le> length ts3"
  "length (snd (parseFactor ts4)) \<le> length ts4"
proof (induction ts and left ts1 and ts2 and left2 ts3 and ts4
    rule: parseExpr_exprLoop_parseTerm_termLoop_parseFactor.induct)
  case (1 ts)
  obtain l r where p: "parseTerm ts = (l, r)" by (cases "parseTerm ts")
  have "length (snd (exprLoop l (clamp ts r))) \<le> length (clamp ts r)"
    using 1(2) [OF p [symmetric]] .
  also have "\<dots> \<le> length ts" by (simp add: clamp_def)
  finally show ?case by (simp add: parseExpr.simps p)
next
  case (2 left)
  show ?case by (simp add: exprLoop.simps)
next
  case (3 left t ts)
  show ?case
  proof (cases "t = TOp (CHR ''+'') \<or> t = TOp (CHR ''-'')")
    case True
    obtain x r where p: "parseTerm ts = (x, r)" by (cases "parseTerm ts")
    define l' where "l' = (if t = TOp (CHR ''+'') then jsAdd left x else jsSub left x)"
    have "length (snd (exprLoop l' (clamp ts r))) \<le> length (clamp ts r)"
      unfolding l'_def using 3(2) [OF True p [symmetric]] .
    also have "\<dots> \<le> length ts" by (simp add: clamp_def)
    finally show ?thesis using True by (simp add: exprLoop.simps p l'_def)
  next
    case False
    then show ?thesis by (simp add: exprLoop.simps)
  qed
next
  case (4 ts)
  obtain l r where p: "parseFactor ts = (l, r)" by (cases "parseFactor ts")
  have "length (snd (termLoop l (clamp ts r))) \<le> length (clamp ts r)"
    using 4(2) [OF p [symmetric]] .
  also have "\<dots> \<le> length ts" by (simp add: clamp_def)
  finally show ?case by (simp add: parseTerm.simps p)
next
  case (5 left)
  show ?case by (simp add: termLoop.simps)
next
  case (6 left t ts)
  show ?case
  proof (cases "t = TOp (CHR ''*'') \<or> t = TOp (CHR ''/'') \<or> t = TOp (CHR ''%'')")
    case True
    obtain x r where p: "parseFactor ts = (x, r)" by (cases "parseFactor ts")
    define l' where "l' = (if t = TOp (CHR ''*'') then jsMul left x
              else if t = TOp (CHR ''/'') then
                (if \<not> jsEq x (Zero False) then jsDiv left x else NaN)
              else jsMod left x)"
    have "length (snd (termLoop l' (clamp ts r))) \<le> length (clamp ts r)"
      unfolding l'_def using 6(2) [OF True p [symmetric]] .
    also have "\<dots> \<le> length ts" by (simp add: clamp_def)
    finally show ?thesis using True by (simp add: termLoop.simps p l'_def)
  next
    case False
    then show ?thesis by (simp add: termLoop.simps)
  qed
next
  case 7
  show ?case by (simp add: parseFactor.simps)
next
  case (8 v ts)
  show ?case by (simp add: parseFactor.simps)
next
  case (9 c ts)
  show ?case
  proof (cases "c = CHR ''(''")
    case True
    obtain v r where p: "parseExpr ts = (v, r)" by (cases "parseExpr ts")
    have "length r \<le> length ts" using 9(1) [OF True] p by simp
    then show ?thesis
      using True by (auto simp: parseFactor.simps p split: list.splits tok.splits)
  next
    case False
    then show ?thesis
      using 9(2,3) by (auto simp: parseFactor.simps split: prod.splits)
  qed
qed

lemma clamp_parse:
  "clamp ts (snd (parseTerm ts)) = snd (parseTerm ts)"
  "clamp ts (snd (parseFactor ts)) = snd (parseFactor ts)"
  by (simp_all add: clamp_def parse_length)

text \<open>The equations of the parser as the source has them.\<close>

lemma parseExpr_eq: "parseExpr ts = (case parseTerm ts of (left, rest) \<Rightarrow> exprLoop left rest)"
  using clamp_parse(1) [of ts] by (auto simp: parseExpr.simps split: prod.splits)

lemma parseTerm_eq: "parseTerm ts = (case parseFactor ts of (left, rest) \<Rightarrow> termLoop left rest)"
  using clamp_parse(2) [of ts] by (auto simp: parseTerm.simps split: prod.splits)

lemma exprLoop_eq:
  "exprLoop left (TOp (CHR ''+'') # ts) =
     (case parseTerm ts of (right, rest) \<Rightarrow> exprLoop (jsAdd left right) rest)"
  "exprLoop left (TOp (CHR ''-'') # ts) =
     (case parseTerm ts of (right, rest) \<Rightarrow> exprLoop (jsSub left right) rest)"
  "t \<noteq> TOp (CHR ''+'') \<Longrightarrow> t \<noteq> TOp (CHR ''-'') \<Longrightarrow> exprLoop left (t # ts) = (left, t # ts)"
  "exprLoop left [] = (left, [])"
  using clamp_parse(1) [of ts] by (auto simp: exprLoop.simps split: prod.splits)

lemma termLoop_eq:
  "termLoop left (TOp (CHR ''*'') # ts) =
     (case parseFactor ts of (right, rest) \<Rightarrow> termLoop (jsMul left right) rest)"
  "termLoop left (TOp (CHR ''/'') # ts) =
     (case parseFactor ts of (right, rest) \<Rightarrow>
        termLoop (if \<not> jsEq right (Zero False) then jsDiv left right else NaN) rest)"
  "termLoop left (TOp (CHR ''%'') # ts) =
     (case parseFactor ts of (right, rest) \<Rightarrow> termLoop (jsMod left right) rest)"
  "t \<noteq> TOp (CHR ''*'') \<Longrightarrow> t \<noteq> TOp (CHR ''/'') \<Longrightarrow> t \<noteq> TOp (CHR ''%'') \<Longrightarrow>
     termLoop left (t # ts) = (left, t # ts)"
  "termLoop left [] = (left, [])"
  using clamp_parse(2) [of ts] by (auto simp: termLoop.simps split: prod.splits)

lemma parseFactor_eq:
  "parseFactor [] = (NaN, [])"
  "parseFactor (TNum v # ts) = (v, ts)"
  "parseFactor (TOp (CHR ''('') # ts) =
     (case parseExpr ts of (val, rest) \<Rightarrow>
        (val, (case rest of TOp c' # rest' \<Rightarrow> if c' = CHR '')'' then rest' else rest | _ \<Rightarrow> rest)))"
  "parseFactor (TOp (CHR ''-'') # ts) = (case parseFactor ts of (v, rest) \<Rightarrow> (jsNeg v, rest))"
  "parseFactor (TOp (CHR ''+'') # ts) = parseFactor ts"
  "c \<noteq> CHR ''('' \<Longrightarrow> c \<noteq> CHR ''-'' \<Longrightarrow> c \<noteq> CHR ''+'' \<Longrightarrow>
     parseFactor (TOp c # ts) = (NaN, TOp c # ts)"
  by (simp_all add: parseFactor.simps)

lemmas parse_eval = parseExpr_eq parseTerm_eq exprLoop_eq termLoop_eq parseFactor_eq


lemma jsEq_zero: "jsEq b (Zero False) \<longleftrightarrow> isZero b"
  by (cases b) (auto simp: jsEq_def isZero_def)

lemma termLoop_noMul: "noMul rest \<Longrightarrow> termLoop v rest = (v, rest)"
  by (cases rest) (simp_all add: noMul_def termLoop_eq)

lemma termLoop_op:
  "termLoop left (TOp (mulChar op) # ts) =
     (case parseFactor ts of (right, rest) \<Rightarrow> termLoop (applyMul op left right) rest)"
  by (cases op) (simp_all add: termLoop_eq jsEq_zero split: prod.splits)

lemma exprLoop_op:
  "exprLoop left (TOp (addChar op) # ts) =
     (case parseTerm ts of (right, rest) \<Rightarrow> exprLoop (applyAdd op left right) rest)"
  by (cases op) (simp_all add: exprLoop_eq)

lemma noMul_simps [simp]:
  "noMul []" "noMul (TOp (CHR '')'') # ts)" "noMul (TOp (addChar op) # ts)"
  by (cases op; simp add: noMul_def)+

lemma parse_tokens:
  "parseFactor (factorTokens f @ rest) = (factorValue f, rest)"
  "parseTerm (termTokens t @ rest) = termLoop (termValue t) rest"
  "noMul rest \<Longrightarrow> parseExpr (exprTokens e @ rest) = exprLoop (exprValue e) rest"
proof (induction f and t and e arbitrary: rest and rest and rest)
  case (Number v)
  show ?case by (simp add: parseFactor_eq)
next
  case (Paren e)
  have "parseExpr (exprTokens e @ TOp (CHR '')'') # rest) =
      exprLoop (exprValue e) (TOp (CHR '')'') # rest)"
    by (rule Paren.IH) simp
  then show ?case by (simp add: parseFactor_eq exprLoop_eq)
next
  case (Negate f)
  then show ?case by (simp add: parseFactor_eq)
next
  case (Positive f)
  then show ?case by (simp add: parseFactor_eq)
next
  case (TFactor f)
  then show ?case by (simp add: parseTerm_eq)
next
  case (TMul t op f)
  then show ?case by (simp add: termLoop_op)
next
  case (ETerm t)
  then show ?case by (simp add: parseExpr_eq termLoop_noMul)
next
  case (EAdd e op t)
  have "parseExpr (exprTokens e @ TOp (addChar op) # termTokens t @ rest) =
      exprLoop (exprValue e) (TOp (addChar op) # termTokens t @ rest)"
    by (rule EAdd.IH(1)) simp
  then show ?case
    using EAdd.IH(2) [of rest] EAdd.prems by (simp add: exprLoop_op termLoop_noMul)
qed

lemma parseExpr_grammar: "parseExpr (exprTokens e) = (exprValue e, [])"
  using parse_tokens(3) [of "[]" e] by (simp add: exprLoop_eq)

lemma safeArith_grammar:
  assumes "tokenize s = Some (exprTokens e)"
  shows "safeArith s = exprValue e"
  using assms by (simp add: safeArith_def parseExpr_grammar isNaN_def)

lemma tokenize_other:
  assumes "\<exists>c\<in>set s. \<not> isSpace c \<and> \<not> isNumChar c \<and> \<not> isOpChar c"
  shows "tokenize s = None"
  using assms
proof (induction s rule: tokenize.induct)
  case 1
  then show ?case by simp
next
  case (2 c s)
  show ?case
  proof (cases "isSpace c")
    case True
    with 2 show ?thesis by auto
  next
    case False
    note sp = False
    show ?thesis
    proof (cases "isNumChar c")
      case True
      have "\<exists>c\<in>set (dropWhile isNumChar s). \<not> isSpace c \<and> \<not> isNumChar c \<and> \<not> isOpChar c"
      proof -
        from 2(4) True obtain d where d: "d \<in> set s" "\<not> isSpace d" "\<not> isNumChar d" "\<not> isOpChar d"
          by auto
        have "s = takeWhile isNumChar s @ dropWhile isNumChar s" by simp
        then have "d \<in> set (takeWhile isNumChar s) \<or> d \<in> set (dropWhile isNumChar s)"
          using d(1) by (metis Un_iff set_append)
        moreover have "d \<notin> set (takeWhile isNumChar s)"
          using d(3) by (auto dest: set_takeWhileD)
        ultimately show ?thesis using d by blast
      qed
      then have "tokenize (dropWhile isNumChar s) = None"
        using 2(2) [OF sp True] by blast
      then show ?thesis using sp True by simp
    next
      case False
      show ?thesis
      proof (cases "isOpChar c")
        case True
        with 2(4) have "\<exists>c\<in>set s. \<not> isSpace c \<and> \<not> isNumChar c \<and> \<not> isOpChar c" by auto
        then have "tokenize s = None" using 2(3) [OF sp False True] by blast
        then show ?thesis using sp False True by simp
      next
        case F3: False
        then show ?thesis using sp False by simp
      qed
    qed
  qed
qed

lemma parseZ_parse:
  "parseExpr ts = proj (parseExprZ ts)"
  "exprLoop left ts1 = proj (exprLoopZ left z ts1)"
  "parseTerm ts2 = proj (parseTermZ ts2)"
  "termLoop left2 ts3 = proj (termLoopZ left2 z2 ts3)"
  "parseFactor ts4 = proj (parseFactorZ ts4)"
proof (induction ts and left z ts1 and ts2 and left2 z2 ts3 and ts4
    rule: parseExprZ_exprLoopZ_parseTermZ_termLoopZ_parseFactorZ.induct)
  case (1 ts)
  obtain l r z where pz: "parseTermZ ts = (l, r, z)" by (cases "parseTermZ ts")
  have p: "parseTerm ts = (l, r)" using 1(1) by (simp add: pz proj_def)
  show ?case
    using 1(2) [OF pz [symmetric] refl]
    by (simp add: parseExpr.simps parseExprZ.simps p pz)
next
  case (2 left z)
  show ?case by (simp add: exprLoop.simps exprLoopZ.simps proj_def)
next
  case (3 left z t ts)
  show ?case
  proof (cases "t = TOp (CHR ''+'') \<or> t = TOp (CHR ''-'')")
    case True
    obtain x r z' where pz: "parseTermZ ts = (x, r, z')" by (cases "parseTermZ ts")
    have p: "parseTerm ts = (x, r)" using 3(1) [OF True] by (simp add: pz proj_def)
    show ?thesis
      using 3(2) [OF True pz [symmetric] refl] True
      by (simp add: exprLoop.simps exprLoopZ.simps p pz)
  next
    case False
    then show ?thesis by (simp add: exprLoop.simps exprLoopZ.simps proj_def)
  qed
next
  case (4 ts)
  obtain l r z where pz: "parseFactorZ ts = (l, r, z)" by (cases "parseFactorZ ts")
  have p: "parseFactor ts = (l, r)" using 4(1) by (simp add: pz proj_def)
  show ?case
    using 4(2) [OF pz [symmetric] refl]
    by (simp add: parseTerm.simps parseTermZ.simps p pz)
next
  case (5 left z)
  show ?case by (simp add: termLoop.simps termLoopZ.simps proj_def)
next
  case (6 left z t ts)
  show ?case
  proof (cases "t = TOp (CHR ''*'') \<or> t = TOp (CHR ''/'') \<or> t = TOp (CHR ''%'')")
    case True
    obtain x r z' where pz: "parseFactorZ ts = (x, r, z')" by (cases "parseFactorZ ts")
    have p: "parseFactor ts = (x, r)" using 6(1) [OF True] by (simp add: pz proj_def)
    show ?thesis
      using 6(2) [OF True pz [symmetric] refl] True
      by (simp add: termLoop.simps termLoopZ.simps p pz)
  next
    case False
    then show ?thesis by (simp add: termLoop.simps termLoopZ.simps proj_def)
  qed
next
  case 7
  show ?case by (simp add: parseFactor.simps parseFactorZ.simps proj_def)
next
  case (8 v ts)
  show ?case by (simp add: parseFactor.simps parseFactorZ.simps proj_def)
next
  case (9 c ts)
  show ?case
  proof (cases "c = CHR ''(''")
    case True
    obtain v r z where pz: "parseExprZ ts = (v, r, z)" by (cases "parseExprZ ts")
    have p: "parseExpr ts = (v, r)" using 9(1) [OF True] by (simp add: pz proj_def)
    show ?thesis
      using True by (simp add: parseFactor.simps parseFactorZ.simps p pz proj_def)
  next
    case False
    note F = False
    show ?thesis
    proof (cases "c = CHR ''-''")
      case True
      obtain v r z where pz: "parseFactorZ ts = (v, r, z)" by (cases "parseFactorZ ts")
      have p: "parseFactor ts = (v, r)" using 9(2) [OF F True] by (simp add: pz proj_def)
      show ?thesis
        using F True by (simp add: parseFactor.simps parseFactorZ.simps p pz proj_def)
    next
      case False
      then show ?thesis
        using F 9(3) by (simp add: parseFactor.simps parseFactorZ.simps proj_def)
    qed
  qed
qed

lemma jsAdd_NaN [simp]: "jsAdd a NaN = NaN" by (cases a) simp_all
lemma jsMul_NaN [simp]: "jsMul a NaN = NaN" by (cases a) simp_all
lemma jsDiv_NaN [simp]: "jsDiv a NaN = NaN" by (cases a) simp_all
lemma jsMod_NaN [simp]: "jsMod a NaN = NaN" by (cases a) simp_all
lemma jsSub_NaN [simp]: "jsSub a NaN = NaN" "jsSub NaN b = NaN" by (simp_all add: jsSub_def)

lemma parseZ_nan:
  "snd (snd (parseExprZ ts)) \<longrightarrow> fst (parseExprZ ts) = NaN"
  "(z \<longrightarrow> left = NaN) \<longrightarrow> snd (snd (exprLoopZ left z ts1)) \<longrightarrow> fst (exprLoopZ left z ts1) = NaN"
  "snd (snd (parseTermZ ts2)) \<longrightarrow> fst (parseTermZ ts2) = NaN"
  "(z2 \<longrightarrow> left2 = NaN) \<longrightarrow> snd (snd (termLoopZ left2 z2 ts3)) \<longrightarrow> fst (termLoopZ left2 z2 ts3) = NaN"
  "snd (snd (parseFactorZ ts4)) \<longrightarrow> fst (parseFactorZ ts4) = NaN"
proof (induction ts and left z ts1 and ts2 and left2 z2 ts3 and ts4
    rule: parseExprZ_exprLoopZ_parseTermZ_termLoopZ_parseFactorZ.induct)
  case (1 ts)
  obtain l r z where pz: "parseTermZ ts = (l, r, z)" by (cases "parseTermZ ts")
  have "z \<longrightarrow> l = NaN" using 1(1) by (simp add: pz)
  then show ?case
    using 1(2) [OF pz [symmetric] refl] by (simp add: parseExprZ.simps pz)
next
  case (2 left z)
  show ?case by (simp add: exprLoopZ.simps)
next
  case (3 left z t ts)
  show ?case
  proof (cases "t = TOp (CHR ''+'') \<or> t = TOp (CHR ''-'')")
    case True
    obtain x r z' where pz: "parseTermZ ts = (x, r, z')" by (cases "parseTermZ ts")
    have x: "z' \<longrightarrow> x = NaN" using 3(1) [OF True] by (simp add: pz)
    define l' where "l' = (if t = TOp (CHR ''+'') then jsAdd left x else jsSub left x)"
    have "(z \<longrightarrow> left = NaN) \<longrightarrow> (z \<or> z' \<longrightarrow> l' = NaN)"
      using x by (auto simp: l'_def)
    then show ?thesis
      using 3(2) [OF True pz [symmetric] refl] True
      by (simp add: exprLoopZ.simps pz l'_def [symmetric])
  next
    case False
    then show ?thesis by (simp add: exprLoopZ.simps)
  qed
next
  case (4 ts)
  obtain l r z where pz: "parseFactorZ ts = (l, r, z)" by (cases "parseFactorZ ts")
  have "z \<longrightarrow> l = NaN" using 4(1) by (simp add: pz)
  then show ?case
    using 4(2) [OF pz [symmetric] refl] by (simp add: parseTermZ.simps pz)
next
  case (5 left z)
  show ?case by (simp add: termLoopZ.simps)
next
  case (6 left z t ts)
  show ?case
  proof (cases "t = TOp (CHR ''*'') \<or> t = TOp (CHR ''/'') \<or> t = TOp (CHR ''%'')")
    case True
    obtain x r z' where pz: "parseFactorZ ts = (x, r, z')" by (cases "parseFactorZ ts")
    have x: "z' \<longrightarrow> x = NaN" using 6(1) [OF True] by (simp add: pz)
    define l' where "l' = (if t = TOp (CHR ''*'') then jsMul left x
              else if t = TOp (CHR ''/'') then
                (if \<not> jsEq x (Zero False) then jsDiv left x else NaN)
              else jsMod left x)"
    define zn where "zn = (z \<or> z' \<or> (t = TOp (CHR ''/'') \<and> jsEq x (Zero False)))"
    have "(z \<longrightarrow> left = NaN) \<longrightarrow> (zn \<longrightarrow> l' = NaN)"
      using x by (auto simp: l'_def zn_def)
    then show ?thesis
      using 6(2) [OF True pz [symmetric] refl] True
      by (simp add: termLoopZ.simps pz l'_def [symmetric] zn_def [symmetric])
  next
    case False
    then show ?thesis by (simp add: termLoopZ.simps)
  qed
next
  case 7
  show ?case by (simp add: parseFactorZ.simps)
next
  case (8 v ts)
  show ?case by (simp add: parseFactorZ.simps)
next
  case (9 c ts)
  show ?case
  proof (cases "c = CHR ''(''")
    case True
    obtain v r z where pz: "parseExprZ ts = (v, r, z)" by (cases "parseExprZ ts")
    have "z \<longrightarrow> v = NaN" using 9(1) [OF True] by (simp add: pz)
    then show ?thesis
      using True by (simp add: parseFactorZ.simps pz)
  next
    case False
    note F = False
    show ?thesis
    proof (cases "c = CHR ''-''")
      case True
      obtain v r z where pz: "parseFactorZ ts = (v, r, z)" by (cases "parseFactorZ ts")
      have "z \<longrightarrow> v = NaN" using 9(2) [OF F True] by (simp add: pz)
      then show ?thesis
        using F True by (auto simp: parseFactorZ.simps pz)
    next
      case False
      then show ?thesis
        using F 9(3) by (simp add: parseFactorZ.simps)
    qed
  qed
qed

lemmas tok_eval = isSpace_def isNumChar_def isOpChar_def isDigit_def parseFloat_def
  decimalValue_def digitsVal_def digitVal_def

lemmas parseZ_eval = parseExprZ.simps exprLoopZ.simps parseTermZ.simps termLoopZ.simps
  parseFactorZ.simps clamp_def

lemma divisionByZero_NaN:
  assumes "divisionByZero s"
  shows "safeArith s = NaN"
proof -
  from assms obtain ts where t: "tokenize s = Some ts"
    by (auto simp: divisionByZero_def split: option.splits)
  obtain v r z where pz: "parseExprZ ts = (v, r, z)" by (cases "parseExprZ ts")
  have z: "z" using assms by (simp add: divisionByZero_def t pz)
  have "v = NaN" using parseZ_nan(1) [of ts] z by (simp add: pz)
  moreover have "parseExpr ts = (v, r)" using parseZ_parse(1) [of ts] by (simp add: pz proj_def)
  ultimately show ?thesis by (simp add: safeArith_def t isNaN_def)
qed

lemma safeArith_examples:
  "safeArith ''2 + 3 * 4'' = Fin 14"
  "safeArith ''(1+2)*3'' = Fin 9"
  "safeArith ''10 / 0'' = NaN"
  by (simp_all add: safeArith_def tok_eval parse_eval isNaN_def jsEq_def isZero_def)

lemma divisionByZero_example: "divisionByZero ''10 / 0''"
  by (simp add: divisionByZero_def tok_eval parseZ_eval jsEq_def isZero_def)

text \<open>
  C2, as amended. The evaluator computes the grammar
  \<^verbatim>\<open>expr := term (('+'|'-') term)*\<close>, \<^verbatim>\<open>term := factor (('*'|'/'|'%') factor)*\<close>,
  \<^verbatim>\<open>factor := NUMBER | '(' expr ')' | ('-'|'+') factor\<close> with standard precedence: on
  the tokens of a syntax tree it returns the value of the tree. It yields NaN whenever
  the input contains a character outside the arithmetic set, whenever tokens remain
  unconsumed after parsing, and whenever a division by zero occurs (it also yields NaN
  in other cases, such as a missing operand). In particular \<^verbatim>\<open>2 + 3 * 4\<close> evaluates to
  14, \<^verbatim>\<open>(1+2)*3\<close> to 9, and \<^verbatim>\<open>10 / 0\<close>, where a division by zero occurs, to NaN.
\<close>

theorem safeArith_grammar_and_NaN:
  "(\<forall>e. tokenize s = Some (exprTokens e) \<longrightarrow> safeArith s = exprValue e)
   \<and> ((\<exists>c\<in>set s. \<not> isSpace c \<and> \<not> isNumChar c \<and> \<not> isOpChar c) \<longrightarrow> safeArith s = NaN)
   \<and> (\<forall>ts v rest. tokenize s = Some ts \<and> parseExpr ts = (v, rest) \<and> rest \<noteq> [] \<longrightarrow>
         safeArith s = NaN)
   \<and> (divisionByZero s \<longrightarrow> safeArith s = NaN)
   \<and> safeArith ''2 + 3 * 4'' = Fin 14
   \<and> safeArith ''(1+2)*3'' = Fin 9
   \<and> safeArith ''10 / 0'' = NaN
   \<and> divisionByZero ''10 / 0''"
proof (intro conjI allI impI)
  fix e assume "tokenize s = Some (exprTokens e)"
  then show "safeArith s = exprValue e" by (rule safeArith_grammar)
next
  assume "\<exists>c\<in>set s. \<not> isSpace c \<and> \<not> isNumChar c \<and> \<not> isOpChar c"
  then have "tokenize s = None" by (rule tokenize_other)
  then show "safeArith s = NaN" by (simp add: safeArith_def)
next
  fix ts v rest
  assume "tokenize s = Some ts \<and> parseExpr ts = (v, rest) \<and> rest \<noteq> []"
  then show "safeArith s = NaN" by (simp add: safeArith_def)
next
  assume "divisionByZero s"
  then show "safeArith s = NaN" by (rule divisionByZero_NaN)
qed (simp_all only: safeArith_examples divisionByZero_example)

theorem safeArith_grammar_and_NaN_witness:
  "safeArith ''2 + 3 * 4'' =
     exprValue (EAdd (ETerm (TFactor (Number (Fin 2)))) Plus
                  (TMul (TFactor (Number (Fin 3))) Times (Number (Fin 4))))
   \<and> safeArith ''2 + x'' = NaN
   \<and> safeArith ''2 3'' = NaN
   \<and> safeArith ''1 / (2 - 2)'' = NaN"
proof -
  let ?e = "EAdd (ETerm (TFactor (Number (Fin 2)))) Plus
                  (TMul (TFactor (Number (Fin 3))) Times (Number (Fin 4)))"
  have h1: "tokenize ''2 + 3 * 4'' = Some (exprTokens ?e)"
    by (simp add: tok_eval)
  have h2: "\<exists>c\<in>set ''2 + x''. \<not> isSpace c \<and> \<not> isNumChar c \<and> \<not> isOpChar c"
    by (simp add: tok_eval)
  have h3: "tokenize ''2 3'' = Some [TNum (Fin 2), TNum (Fin 3)]
      \<and> parseExpr [TNum (Fin 2), TNum (Fin 3)] = (Fin 2, [TNum (Fin 3)])
      \<and> [TNum (Fin 3)] \<noteq> []"
    by (simp add: tok_eval parse_eval)
  have h4: "divisionByZero ''1 / (2 - 2)''"
    by (simp add: divisionByZero_def tok_eval parseZ_eval jsEq_def isZero_def jsSub_def)
  have a: "safeArith ''2 + 3 * 4'' = exprValue ?e"
    using safeArith_grammar_and_NaN [of "''2 + 3 * 4''"] h1 by blast
  have b: "safeArith ''2 + x'' = NaN"
    using safeArith_grammar_and_NaN [of "''2 + x''"] h2 by blast
  have c: "safeArith ''2 3'' = NaN"
    using safeArith_grammar_and_NaN [of "''2 3''"] h3 by blast
  have d: "safeArith ''1 / (2 - 2)'' = NaN"
    using safeArith_grammar_and_NaN [of "''1 / (2 - 2)''"] h4 by blast
  show ?thesis using a b c d by blast
qed

text \<open>
  The input \<^verbatim>\<open>2 +\<close> has only characters of the arithmetic set, the parser consumes
  both of its tokens, no division by zero occurs, and the result is NaN: the operand
  missing after the operator is NaN, and so is the sum.
\<close>

theorem safeArith_missing_operand_counterexample:
  "tokenize ''2 +'' = Some [TNum (Fin 2), TOp (CHR ''+'')]
   \<and> parseExpr [TNum (Fin 2), TOp (CHR ''+'')] = (NaN, [])
   \<and> \<not> divisionByZero ''2 +''
   \<and> safeArith ''2 +'' = NaN"
  by (simp add: safeArith_def divisionByZero_def tok_eval parse_eval parseZ_eval isNaN_def)
section \<open>Properties of the expression evaluator\<close>

lemma firstSome_Some: "firstSome f xs = Some y \<Longrightarrow> \<exists>x\<in>set xs. f x = Some y"
  by (induction xs) (auto split: option.splits)

lemma afterSpace_set: "x \<in> set (afterSpace t) \<Longrightarrow> set x \<subseteq> set t"
  by (auto simp: afterSpace_def dest: in_set_dropD)

lemma opMatch_op:
  assumes "opMatch s = Some (op, r)"
  shows "toLowerCase op \<in> set cmpOps \<and> set op \<subseteq> set s"
proof -
  from firstSome_Some [OF assms [unfolded opMatch_def]]
  obtain o' where o: "o' \<in> set cmpOps" "length o' \<le> length s"
      "toLowerCase (take (length o') s) = o'" "op = take (length o') s"
    by (auto split: if_splits option.splits)
  then show ?thesis by (auto dest: in_set_takeD)
qed

lemma cmpScan_op:
  "cmpScan l rest = Some (l', op, r) \<Longrightarrow> toLowerCase op \<in> set cmpOps \<and> set op \<subseteq> set rest"
proof (induction l rest rule: cmpScan.induct)
  case (1 l rest)
  show ?case
  proof (cases "firstSome opMatch (afterSpace rest)")
    case (Some a)
    obtain op' r' where a: "a = (op', r')" by (cases a)
    from firstSome_Some [OF Some [unfolded a]]
    obtain x where x: "x \<in> set (afterSpace rest)" "opMatch x = Some (op', r')" by blast
    have "op' = op" using 1(2) Some a by (subst (asm) cmpScan.simps) simp
    then show ?thesis
      using opMatch_op [OF x(2)] afterSpace_set [OF x(1)] by auto
  next
    case None
    show ?thesis
    proof (cases rest)
      case Nil
      then show ?thesis using 1(2) None by (subst (asm) cmpScan.simps) simp
    next
      case (Cons c rest')
      have nl: "\<not> isLT c" and s: "cmpScan (l @ [c]) rest' = Some (l', op, r)"
        using 1(2) None Cons by (subst (asm) cmpScan.simps; simp split: if_splits)+
      from 1(1) [OF None Cons nl s] show ?thesis using Cons by auto
    qed
  qed
qed

lemma cmpMatch_op:
  "cmpMatch e = Some (l, op, r) \<Longrightarrow> toLowerCase op \<in> set cmpOps \<and> set op \<subseteq> set e"
  by (auto simp: cmpMatch_def split: list.splits if_splits dest!: cmpScan_op)

lemma isAlpha_toLowerChar:
  assumes "isAlpha (toLowerChar c)"
  shows "isAlpha c"
proof (cases c)
  case (Char b0 b1 b2 b3 b4 b5 b6 b7)
  with assms show ?thesis
    by (cases b0; cases b1; cases b2; cases b3; cases b4; cases b5; cases b6; cases b7)
       (simp_all add: isAlpha_def toLowerChar_def Let_def)
qed

lemma isAlpha_not_arith:
  "isAlpha c \<Longrightarrow> \<not> (isDigit c \<or> isSpace c \<or> c \<in> set ''+-*/%.()'')"
  by (auto simp: isAlpha_def isDigit_def isSpace_def Let_def)

lemma numeric_op_alpha:
  assumes "toLowerCase op \<in> {''-lt'', ''-gt'', ''-le'', ''-ge''}"
  shows "\<exists>c\<in>set op. isAlpha c"
proof -
  have len: "length op = 3"
    using assms length_map [of toLowerChar op] unfolding toLowerCase_def by auto
  have "toLowerCase op ! 1 = CHR ''l'' \<or> toLowerCase op ! 1 = CHR ''g''"
    using assms by auto
  then have "toLowerChar (op ! 1) = CHR ''l'' \<or> toLowerChar (op ! 1) = CHR ''g''"
    using len by (simp add: toLowerCase_def)
  then have "isAlpha (toLowerChar (op ! 1))" by (auto simp: isAlpha_def)
  then have "isAlpha (op ! 1)" by (rule isAlpha_toLowerChar)
  moreover have "op ! 1 \<in> set op" using len by simp
  ultimately show ?thesis by blast
qed

lemma cmpMatch_not_arith:
  assumes "cmpMatch e = Some (l, op, r)" and "toLowerCase op \<in> {''-lt'', ''-gt'', ''-le'', ''-ge''}"
  shows "\<not> arithChars e"
proof -
  from numeric_op_alpha [OF assms(2)] obtain c where c: "c \<in> set op" "isAlpha c" by blast
  with cmpMatch_op [OF assms(1)] have "c \<in> set e" by auto
  then show ?thesis
    using isAlpha_not_arith [OF c(2)] by (auto simp: arithChars_def list_all_iff)
qed

lemma jsLess_NaN [simp]: "jsLess a NaN = False"
  by (cases a) simp_all

lemma jsLessEq_NaN [simp]: "jsLessEq NaN b = False" "jsLessEq a NaN = False"
  by (simp_all add: jsLessEq_def jsEq_def)

lemma evalComparison_NaN:
  assumes "toLowerCase op \<in> {''-lt'', ''-gt'', ''-le'', ''-ge''}"
    and "jsNumber (stripQuotes (trim l)) = NaN \<or> jsNumber (stripQuotes (trim r)) = NaN"
  shows "evalComparison e l op r = Text ''false''"
proof -
  define a where "a = jsNumber (stripQuotes (trim l))"
  define b where "b = jsNumber (stripQuotes (trim r))"
  have c: "\<not> jsLess a b" "\<not> jsLess b a" "\<not> jsLessEq a b" "\<not> jsLessEq b a"
    using assms(2) by (auto simp: a_def b_def)
  from assms(1) consider "toLowerCase op = ''-lt''" | "toLowerCase op = ''-gt''"
    | "toLowerCase op = ''-le''" | "toLowerCase op = ''-ge''" by blast
  then show ?thesis
  proof cases
    case 1
    then show ?thesis
      using c unfolding evalComparison_def Let_def a_def b_def by (simp add: boolToString_def)
  next
    case 2
    then show ?thesis
      using c unfolding evalComparison_def Let_def a_def b_def by (simp add: boolToString_def)
  next
    case 3
    then show ?thesis
      using c unfolding evalComparison_def Let_def a_def b_def by (simp add: boolToString_def)
  next
    case 4
    then show ?thesis
      using c unfolding evalComparison_def Let_def a_def b_def by (simp add: boolToString_def)
  qed
qed

text \<open>
  When the comparison pattern finds one of the operators \<^verbatim>\<open>-lt\<close>, \<^verbatim>\<open>-gt\<close>,
  \<^verbatim>\<open>-le\<close>, \<^verbatim>\<open>-ge\<close> (in any letter case) between two operands that do not parse as
  numbers, \<^verbatim>\<open>evalExpression\<close> returns the string \<^verbatim>\<open>false\<close>: both operands coerce to
  NaN, a comparison with NaN is false, and the string of that boolean is in lower case.
\<close>

lemma evalExpression_non_numeric:
  assumes "cmpMatch (expandVariables st (trim expr)) = Some (l, op, r)"
    and "toLowerCase op \<in> {''-lt'', ''-gt'', ''-le'', ''-ge''}"
    and "jsNumber (stripQuotes (trim l)) = NaN"
    and "jsNumber (stripQuotes (trim r)) = NaN"
  shows "evalExpression st expr = Text ''false''"
proof -
  have "\<not> arithChars (expandVariables st (trim expr))"
    using assms(1,2) by (rule cmpMatch_not_arith)
  then have "evalExpression st expr = evalComparison (expandVariables st (trim expr)) l op r"
    by (simp add: evalExpression_def Let_def assms(1))
  also have "\<dots> = Text ''false''"
    using assms(2,3) by (intro evalComparison_NaN) auto
  finally show ?thesis .
qed

lemmas eval_eval = evalExpression_def arithChars_def cmpMatch_def cmpScan.simps afterSpace_def
  opMatch_def tailMatch_def cmpOps_def isLT_def evalComparison_def boolToString_def

lemmas number_eval = jsNumber_def nonDecimal_def unsignedDecimal_def exponentPart_def

lemma cmpMatch_example:
  "cmpMatch (expandVariables initState (trim ''abc -lt def'')) = Some (''abc'', ''-lt'', ''def'')"
  by (simp add: eval_eval expand_eval trim_def isSpace_def initState_def)

lemma jsNumber_example: "jsNumber ''abc'' = NaN" "jsNumber ''def'' = NaN"
  by (simp_all add: number_eval trim_def isSpace_def isDigit_def stripQuotes_def)

lemma cmpMatch_example_plain:
  "cmpMatch ''abc -lt def'' = Some (''abc'', ''-lt'', ''def'')"
  by (simp add: eval_eval isSpace_def toLowerCase_def toLowerChar_def)

text \<open>
  C3. Neither \<^verbatim>\<open>abc\<close> nor \<^verbatim>\<open>def\<close> parses as a number, and \<^verbatim>\<open>abc -lt def\<close>
  evaluates to the string \<^verbatim>\<open>false\<close> in lower case (the text that \<^verbatim>\<open>String\<close> gives
  for a boolean), not to the string \<^verbatim>\<open>False\<close>, which is how the built-in variable
  \<^verbatim>\<open>$false\<close> of the same program writes that value.
\<close>

theorem evalExpression_lt_lowercase:
  "jsNumber ''abc'' = NaN \<and> jsNumber ''def'' = NaN
   \<and> evalExpression initState ''abc -lt def'' = Text ''false''
   \<and> evalExpression initState ''abc -lt def'' \<noteq> Text ''False''
   \<and> getBuiltinVar initState ''false'' = Some ''False''"
proof -
  have e: "expandVariables initState (trim ''abc -lt def'') = ''abc -lt def''"
    by (simp add: expand_eval trim_def isSpace_def)
  have a: "\<not> arithChars ''abc -lt def''"
    by (simp add: arithChars_def isDigit_def isSpace_def)
  have c: "evalComparison ''abc -lt def'' ''abc'' ''-lt'' ''def'' = Text ''false''"
    by (rule evalComparison_NaN)
       (simp_all add: toLowerCase_def toLowerChar_def jsNumber_example trim_def isSpace_def
          stripQuotes_def isQuote_def)
  have "evalExpression initState ''abc -lt def'' = Text ''false''"
    unfolding evalExpression_def Let_def e using a by (simp add: cmpMatch_example_plain c)
  moreover have "getBuiltinVar initState ''false'' = Some ''False''"
    by (simp add: getBuiltinVar_def toLowerCase_def toLowerChar_def)
  ultimately show ?thesis by (simp add: jsNumber_example)
qed

text \<open>
  The comparison pattern takes the first operator it finds, also inside an operand: in
  \<^verbatim>\<open>one-net -gt two\<close> it finds \<^verbatim>\<open>-ne\<close> behind \<^verbatim>\<open>one\<close>, and the expression
  evaluates to \<^verbatim>\<open>true\<close>.
\<close>

lemma evalExpression_operator_in_operand:
  "cmpMatch ''one-net -gt two'' = Some (''one'', ''-ne'', ''t -gt two'')
   \<and> evalExpression initState ''one-net -gt two'' = Text ''true''"
proof -
  have m: "cmpMatch ''one-net -gt two'' = Some (''one'', ''-ne'', ''t -gt two'')"
    by (simp add: eval_eval isSpace_def toLowerCase_def toLowerChar_def)
  have e: "expandVariables initState (trim ''one-net -gt two'') = ''one-net -gt two''"
    by (simp add: expand_eval trim_def isSpace_def)
  have a: "\<not> arithChars ''one-net -gt two''"
    by (simp add: arithChars_def isDigit_def isSpace_def)
  have c: "evalComparison ''one-net -gt two'' ''one'' ''-ne'' ''t -gt two'' = Text ''true''"
    by (simp add: evalComparison_def boolToString_def toLowerCase_def toLowerChar_def
        trim_def isSpace_def stripQuotes_def isQuote_def)
  have "evalExpression initState ''one-net -gt two'' = Text ''true''"
    unfolding evalExpression_def Let_def e using a by (simp add: m c)
  with m show ?thesis by simp
qed
section \<open>Properties of the history\<close>

lemma count_list_filter_neq: "count_list (filter (\<lambda>h. h \<noteq> x) xs) x = 0"
  by (induction xs) auto

text \<open>
  C9. For a history of at most 200 entries and a non-blank line \<open>cmd\<close>, the history
  after \<^verbatim>\<open>addHistory\<close> has at most 200 entries, holds \<open>cmd\<close> exactly once, as its last
  entry, and its earlier entries are the old entries other than \<open>cmd\<close> in their old
  order (without the oldest of them when 200 of them were there). This covers a line
  that was already present: it moves to the end and is not duplicated.
\<close>

theorem addHistory_dedup_cap:
  assumes "length (history st) \<le> 200" and "trim cmd \<noteq> []"
  shows "length (history (addHistory st cmd)) \<le> 200
       \<and> history (addHistory st cmd) \<noteq> []
       \<and> last (history (addHistory st cmd)) = cmd
       \<and> count_list (history (addHistory st cmd)) cmd = 1
       \<and> butlast (history (addHistory st cmd)) =
           (if length (filter (\<lambda>h. h \<noteq> cmd) (history st)) = 200
            then tl (filter (\<lambda>h. h \<noteq> cmd) (history st))
            else filter (\<lambda>h. h \<noteq> cmd) (history st))"
proof -
  define f where "f = filter (\<lambda>h. h \<noteq> cmd) (history st)"
  have len: "length f \<le> 200"
    unfolding f_def using assms(1) by (rule order_trans [OF length_filter_le])
  have cnt: "count_list f cmd = 0"
    by (simp add: f_def count_list_filter_neq)
  have notin: "cmd \<notin> set f"
    by (simp add: f_def)
  show ?thesis
  proof (cases "length f = 200")
    case True
    then obtain x f' where f: "f = x # f'" by (cases f) auto
    have h: "history (addHistory st cmd) = f' @ [cmd]"
      using assms(2) True f by (simp add: addHistory_def Let_def f_def [symmetric])
    have "count_list f' cmd = 0"
      using notin f by (simp add: count_list_0_iff)
    then show ?thesis
      using True f h by (simp add: f_def [symmetric])
  next
    case False
    then have h: "history (addHistory st cmd) = f @ [cmd]"
      using assms(2) len by (simp add: addHistory_def Let_def f_def [symmetric])
    show ?thesis
      using False len h cnt by (simp add: f_def [symmetric])
  qed
qed

theorem addHistory_dedup_cap_witness:
  "history (addHistory \<lparr>cwd = ''C:'', variables = Map.empty,
       history = [''ls'', ''pwd'', ''cd ..''], historyIndex = 3\<rparr> ''ls'')
   = [''pwd'', ''cd ..'', ''ls'']"
proof -
  let ?st = "\<lparr>cwd = ''C:'', variables = Map.empty,
       history = [''ls'', ''pwd'', ''cd ..''], historyIndex = 3\<rparr>"
  have a: "length (history ?st) \<le> 200" by simp
  have b: "trim ''ls'' \<noteq> []" by (simp add: trim_def isSpace_def)
  define H where "H = history (addHistory ?st ''ls'')"
  from addHistory_dedup_cap [OF a b]
  have l: "last H = ''ls''" and ne: "H \<noteq> []" and bl: "butlast H = [''pwd'', ''cd ..'']"
    by (simp_all add: H_def)
  have "butlast H @ [last H] = H"
    using ne by simp
  then have "H = [''pwd'', ''cd ..'', ''ls'']"
    by (simp add: l bl)
  then show ?thesis
    by (simp add: H_def)
qed

end
